theory Spec2Isabelle
  imports
    Main
    "HOL-Library.Char_ord"
    "HOL-Library.List_Lexorder"
    "HOL-Library.Product_Lexorder"
    "HOL-Library.Multiset"
begin

section \<open>JavaScript strings\<close>

text \<open>
  A JavaScript string is modelled as a \<^typ>\<open>string\<close>: one \<^typ>\<open>char\<close> per code unit,
  restricted to the code units below 256. \<open>s.length\<close> is \<^const>\<open>length\<close>, \<open>s.slice(i)\<close>
  with \<open>0 \<le> i\<close> is \<^const>\<open>drop\<close>. Indices that JavaScript reports as \<open>-1\<close> are
  \<^typ>\<open>int\<close>.
\<close>

definition NL :: char where
  "NL = CHR 0x0A"

text \<open>\<open>s.startsWith(p)\<close> at offset \<open>i\<close>: the test behind \<open>indexOf\<close> and \<open>lastIndexOf\<close>.\<close>

definition occurs_at :: "string \<Rightarrow> string \<Rightarrow> nat \<Rightarrow> bool" where
  "occurs_at s p i = (i + length p \<le> length s \<and> take (length p) (drop i s) = p)"

text \<open>\<open>s.indexOf(p, from)\<close>: the first offset \<open>\<ge> from\<close> where \<open>p\<close> occurs, or \<open>-1\<close>.\<close>

definition indexOf :: "string \<Rightarrow> string \<Rightarrow> nat \<Rightarrow> int" where
  "indexOf s p from =
     (case find (occurs_at s p) [from ..< Suc (length s)] of
        None \<Rightarrow> -1
      | Some i \<Rightarrow> int i)"

text \<open>\<open>s.lastIndexOf(p, from)\<close>: the last offset \<open>\<le> from\<close> where \<open>p\<close> occurs, or \<open>-1\<close>.\<close>

definition lastIndexOf :: "string \<Rightarrow> string \<Rightarrow> nat \<Rightarrow> int" where
  "lastIndexOf s p from =
     (case find (occurs_at s p) (rev [0 ..< Suc (min from (length s))]) of
        None \<Rightarrow> -1
      | Some i \<Rightarrow> int i)"

text \<open>
  White space as \<open>\s\<close> and \<open>trim\<close> see it, among the code units below 256:
  TAB, LF, VT, FF, CR, space and the no-break space.
\<close>

definition is_space :: "char \<Rightarrow> bool" where
  "is_space c = (of_char c \<in> {9, 10, 11, 12, 13, 32, 160 :: nat})"

definition trim :: "string \<Rightarrow> string" where
  "trim s = rev (dropWhile is_space (rev (dropWhile is_space s)))"

text \<open>\<open>toLowerCase\<close> on code units below 256: A-Z and the Latin-1 capitals.\<close>

definition lower_char :: "char \<Rightarrow> char" where
  "lower_char c =
     (let n = (of_char c :: nat)
      in if (65 \<le> n \<and> n \<le> 90) \<or> (192 \<le> n \<and> n \<le> 222 \<and> n \<noteq> 215)
         then char_of (n + 32) else c)"

definition toLowerCase :: "string \<Rightarrow> string" where
  "toLowerCase s = map lower_char s"

text \<open>\<open>s.split(sep)\<close> for a one-character separator: never the empty array.\<close>

fun split :: "char \<Rightarrow> string \<Rightarrow> string list" where
  "split sep [] = [[]]"
| "split sep (c # cs) =
     (if c = sep then [] # split sep cs
      else (case split sep cs of
              [] \<Rightarrow> [[c]]
            | p # ps \<Rightarrow> (c # p) # ps))"

section \<open>The directive pattern \<open>RX_EMBEDDED\<close>\<close>

text \<open>
  \<^verbatim>\<open>/\/\*\s*csslint\s+((?:[^*]|\*(?!\/))+?)\*\//igu\<close>

  The matcher follows the pattern piece by piece, as a backtracking engine runs it. Each
  function matches its piece and everything after it, and returns the captured group
  together with the text left after the whole match.
\<close>

text \<open>
  \<^verbatim>\<open>((?:[^*]|\*(?!\/))+?)\*\/\<close>: the lazy group takes one item, then prefers to stop.
  An item is any character other than \<open>*\<close>, or a \<open>*\<close> that no \<open>/\<close> follows.
\<close>

fun rx_group :: "string \<Rightarrow> string \<Rightarrow> (string \<times> string) option" where
  "rx_group acc [] = None"
| "rx_group acc (c # cs) =
     (if c = CHR ''*'' \<and> take 1 cs = ''/'' then None
      else if take 2 cs = ''*/'' then Some (acc @ [c], drop 2 cs)
      else rx_group (acc @ [c]) cs)"

text \<open>\<^verbatim>\<open>\s+\<close> before the group: greedy, giving characters back one at a time.\<close>

fun rx_spaces1 :: "string \<Rightarrow> (string \<times> string) option" where
  "rx_spaces1 [] = None"
| "rx_spaces1 (c # cs) =
     (if is_space c
      then (case rx_spaces1 cs of
              Some r \<Rightarrow> Some r
            | None \<Rightarrow> rx_group [] cs)
      else None)"

text \<open>\<^verbatim>\<open>csslint\<close> under the \<open>i\<close> flag, then the rest.\<close>

definition rx_csslint :: "string \<Rightarrow> (string \<times> string) option" where
  "rx_csslint s =
     (if toLowerCase (take 7 s) = ''csslint'' then rx_spaces1 (drop 7 s) else None)"

text \<open>\<^verbatim>\<open>\s*\<close> before \<open>csslint\<close>: greedy, with the same backtracking.\<close>

fun rx_spaces0 :: "string \<Rightarrow> (string \<times> string) option" where
  "rx_spaces0 [] = rx_csslint []"
| "rx_spaces0 (c # cs) =
     (if is_space c
      then (case rx_spaces0 cs of
              Some r \<Rightarrow> Some r
            | None \<Rightarrow> rx_csslint (c # cs))
      else rx_csslint (c # cs))"

text \<open>The whole pattern, anchored at the start of \<open>s\<close>.\<close>

definition rx_here :: "string \<Rightarrow> (string \<times> string) option" where
  "rx_here s = (if take 2 s = ''/*'' then rx_spaces0 (drop 2 s) else None)"

text \<open>
  \<open>RX_EMBEDDED.exec(text)\<close> with the \<open>g\<close> flag, started at \<open>lastIndex\<close>: the leftmost
  match at or after it. The result is \<open>m.index\<close>, \<open>m[1]\<close> and the new \<open>lastIndex\<close> (the end
  of the match); on \<open>None\<close> the caller resets \<open>lastIndex\<close> to 0.
\<close>

fun rx_search :: "string \<Rightarrow> nat \<Rightarrow> (nat \<times> string \<times> nat) option" where
  "rx_search [] i = None"
| "rx_search (c # cs) i =
     (case rx_here (c # cs) of
        Some (g, rest) \<Rightarrow> Some (i, g, i + (length (c # cs) - length rest))
      | None \<Rightarrow> rx_search cs (Suc i))"

definition RX_EMBEDDED_exec :: "string \<Rightarrow> nat \<Rightarrow> (nat \<times> string \<times> nat) option" where
  "RX_EMBEDDED_exec text lastIndex =
     (if lastIndex \<le> length text then rx_search (drop lastIndex text) lastIndex else None)"

section \<open>Objects, rules and messages\<close>

text \<open>
  A property key is an array index when it is the decimal numeral, without leading
  zeros, of a number below \<open>2^32 - 1\<close>.
\<close>

definition is_digit :: "char \<Rightarrow> bool" where
  "is_digit c = (48 \<le> (of_char c :: nat) \<and> (of_char c :: nat) \<le> 57)"

definition digits_value :: "string \<Rightarrow> int" where
  "digits_value k = foldl (\<lambda>n c. 10 * n + (of_char c - 48)) 0 k"

definition array_index :: "string \<Rightarrow> nat option" where
  "array_index k =
     (if k \<noteq> [] \<and> list_all is_digit k \<and> (if take 1 k = ''0'' then length k = 1 else True) \<and>
         digits_value k < 4294967295
      then Some (nat (digits_value k)) else None)"

text \<open>
  The names of the members that every plain object inherits from \<open>Object.prototype\<close>, and
  of those that every array inherits from \<open>Array.prototype\<close> (the current edition of the
  language; an engine of an earlier edition lacks the latest of them).
\<close>

definition Object_prototype_names :: "string list" where
  "Object_prototype_names =
     [''constructor'', ''hasOwnProperty'', ''isPrototypeOf'', ''propertyIsEnumerable'',
      ''toLocaleString'', ''toString'', ''valueOf'', ''__proto__'', ''__defineGetter__'',
      ''__defineSetter__'', ''__lookupGetter__'', ''__lookupSetter__'']"

definition Array_prototype_names :: "string list" where
  "Array_prototype_names =
     [''at'', ''concat'', ''constructor'', ''copyWithin'', ''entries'', ''every'', ''fill'',
      ''filter'', ''find'', ''findIndex'', ''findLast'', ''findLastIndex'', ''flat'',
      ''flatMap'', ''forEach'', ''includes'', ''indexOf'', ''join'', ''keys'', ''lastIndexOf'',
      ''map'', ''pop'', ''push'', ''reduce'', ''reduceRight'', ''reverse'', ''shift'', ''slice'',
      ''some'', ''sort'', ''splice'', ''toLocaleString'', ''toReversed'', ''toSorted'',
      ''toSpliced'', ''toString'', ''unshift'', ''values'', ''with'']"

text \<open>
  A ruleset is a plain object from rule ids to severities. It is an association list in
  the order of \<open>Object.keys\<close>, with one entry per key: the array indices in ascending
  order, then the other keys in the order of their insertion. Severities are numbers; 0
  is the only falsy one. \<open>obj_get\<close> reads an own property.
\<close>

type_synonym ruleset = "(string \<times> int) list"

definition obj_get :: "('k \<times> 'v) list \<Rightarrow> 'k \<Rightarrow> 'v option" where
  "obj_get obj k = map_of obj k"

definition obj_keys :: "('k \<times> 'v) list \<Rightarrow> 'k list" where
  "obj_keys obj = map fst obj"

text \<open>The place of a new key \<open>k\<close>: before \<open>k'\<close> when \<open>k\<close> is the smaller array index.\<close>

definition key_before :: "string \<Rightarrow> string \<Rightarrow> bool" where
  "key_before k k' =
     (case array_index k of
        None \<Rightarrow> False
      | Some n \<Rightarrow> (case array_index k' of None \<Rightarrow> True | Some m \<Rightarrow> n < m))"

fun obj_put :: "(string \<times> 'v) list \<Rightarrow> string \<Rightarrow> 'v \<Rightarrow> (string \<times> 'v) list" where
  "obj_put [] k v = [(k, v)]"
| "obj_put (p # ps) k v =
     (if fst p = k then (k, v) # ps
      else if key_before k (fst p) then (k, v) # p # ps
      else p # obj_put ps k v)"

text \<open>
  \<open>obj[k] = v\<close> for a number \<open>v\<close>: an existing key keeps its place. A key \<open>__proto__\<close>
  that the object does not own reaches the setter that plain objects inherit, which
  ignores a number.
\<close>

definition obj_set :: "(string \<times> 'v) list \<Rightarrow> string \<Rightarrow> 'v \<Rightarrow> (string \<times> 'v) list" where
  "obj_set obj k v =
     (if k = ''__proto__'' \<and> obj_get obj k = None then obj else obj_put obj k v)"

text \<open>\<open>Object.assign({}, obj)\<close>: the entries of \<open>obj\<close>, assigned one by one.\<close>

definition obj_clone :: "(string \<times> 'v) list \<Rightarrow> (string \<times> 'v) list" where
  "obj_clone obj = foldl (\<lambda>acc p. obj_set acc (fst p) (snd p)) [] obj"

text \<open>
  What can escape from a call: a \<open>TypeError\<close>, a \<open>RangeError\<close>, or whatever a rule's \<open>init\<close>
  throws.
\<close>

datatype js_error = TypeError | RangeError | Thrown string

text \<open>
  A rule as \<open>CSSLint.addRule({id, name, desc, url, browsers, tags, init})\<close> registers it;
  \<open>None\<close> is a property that the object does not have. \<open>init\<close> is part of the parameter
  \<open>engine\<close> below.
\<close>

record rule =
  rule_id :: string
  name :: string
  desc :: string
  url :: "string option"
  browsers :: string
  tags :: "string list option"

text \<open>
  The \<open>rule\<close> field of a message: a registered rule, the \<open>{}\<close> that \<open>verify\<close> passes with a
  fatal error, or the \<open>{id: ...}\<close> that the worker puts in its place.
\<close>

datatype rule_ref = Registered rule | EmptyObject | IdOnly "string option"

fun id_of :: "rule_ref \<Rightarrow> string option" where
  "id_of (Registered r) = Some (rule_id r)"
| "id_of EmptyObject = None"
| "id_of (IdOnly i) = i"

text \<open>A value used as a property key; \<open>undefined\<close> becomes the key \<open>"undefined"\<close>.\<close>

definition prop_key :: "string option \<Rightarrow> string" where
  "prop_key i = (case i of None \<Rightarrow> ''undefined'' | Some s \<Rightarrow> s)"

datatype msg_type = Error | Warning | Info

text \<open>A message; \<open>None\<close> is \<open>undefined\<close>, and an absent \<open>rollup\<close> is \<open>False\<close>.\<close>

record message =
  mtype :: msg_type
  evidence :: "string option"
  line :: "int option"
  col :: "int option"
  message :: string
  rule :: rule_ref
  rollup :: bool

section \<open>The store\<close>

text \<open>
  Ruleset objects live in a store, since \<open>verify\<close> writes to an object that its caller may
  still hold. The state also has what the module keeps between calls: the cursor
  \<open>RX_EMBEDDED.lastIndex\<close> and the registry \<open>rules\<close>.

  \<open>rules\<close> is one array that \<open>addRule\<close> uses as a list and as an object keyed by rule id.
  \<open>rules\<close> holds its elements, \<open>None\<close> being a hole; \<open>rules_props\<close> holds its own properties
  under keys that are neither an array index nor \<open>length\<close>; \<open>rules_proto\<close> is \<open>None\<close> as long
  as its prototype is \<open>Array.prototype\<close>, and the rule that an assignment to \<open>__proto__\<close>
  has put in its place otherwise.
\<close>

type_synonym ref = nat

record state =
  objs :: "ref \<Rightarrow> ruleset"
  next_ref :: ref
  lastIndex :: int
  rules :: "rule option list"
  rules_props :: "string \<rightharpoonup> rule"
  rules_proto :: "rule option"

definition alloc :: "state \<Rightarrow> ruleset \<Rightarrow> state \<times> ref" where
  "alloc st obj = (st\<lparr>objs := (objs st)(next_ref st := obj), next_ref := Suc (next_ref st)\<rparr>,
                   next_ref st)"

section \<open>Reporter\<close>

record reporter =
  messages :: "message list"
  stats :: "string \<rightharpoonup> int"
  lines :: "string list"
  ruleset :: ref
  allow :: "int \<rightharpoonup> string set"
  ignore :: "(int \<times> int) list"

definition Reporter ::
  "string list \<Rightarrow> ref \<Rightarrow> (int \<rightharpoonup> string set) \<Rightarrow> (int \<times> int) list \<Rightarrow> reporter" where
  "Reporter ls rs al ig =
     \<lparr>messages = [], stats = Map.empty, lines = ls, ruleset = rs, allow = al, ignore = ig\<rparr>"

text \<open>\<open>this.lines[line - 1]\<close>: \<open>undefined\<close> outside the array and for an undefined line.\<close>

definition evidence_at :: "string list \<Rightarrow> int option \<Rightarrow> string option" where
  "evidence_at ls ln =
     (case ln of
        None \<Rightarrow> None
      | Some l \<Rightarrow> if 1 \<le> l \<and> nat (l - 1) < length ls then Some (ls ! nat (l - 1)) else None)"

definition Reporter_error ::
  "reporter \<Rightarrow> string \<Rightarrow> int option \<Rightarrow> int option \<Rightarrow> rule_ref \<Rightarrow> reporter" where
  "Reporter_error r msg ln cl rl =
     r\<lparr>messages := messages r @
        [\<lparr>mtype = Error, evidence = evidence_at (lines r) ln, line = ln, col = cl,
          message = msg, rule = rl, rollup = False\<rparr>]\<rparr>"

text \<open>
  \<open>line in this.allow && rule.id in this.allow[line]\<close>. The allow map has an entry per
  line number, and an entry is a plain object, given by the set of its own keys. \<open>in\<close> is
  true for an own key and for the name of a member that the object inherits.
\<close>

definition allowed :: "reporter \<Rightarrow> int option \<Rightarrow> rule_ref \<Rightarrow> bool" where
  "allowed r ln rl =
     (case ln of
        None \<Rightarrow> False
      | Some l \<Rightarrow> (case allow r l of
                     None \<Rightarrow> False
                   | Some ids \<Rightarrow> prop_key (id_of rl) \<in> ids \<or>
                                prop_key (id_of rl) \<in> set Object_prototype_names))"

text \<open>\<open>this.ignore.some(range => range[0] <= line && line <= range[1])\<close>\<close>

definition ignored :: "reporter \<Rightarrow> int option \<Rightarrow> bool" where
  "ignored r ln =
     (case ln of
        None \<Rightarrow> False
      | Some l \<Rightarrow> list_ex (\<lambda>rg. fst rg \<le> l \<and> l \<le> snd rg) (ignore r))"

definition Reporter_report ::
  "(ref \<Rightarrow> ruleset) \<Rightarrow> reporter \<Rightarrow> string \<Rightarrow> int option \<Rightarrow> int option \<Rightarrow> rule_ref \<Rightarrow> reporter"
  where
  "Reporter_report h r msg ln cl rl =
     (if allowed r ln rl \<or> ignored r ln then r
      else r\<lparr>messages := messages r @
        [\<lparr>mtype = (if obj_get (h (ruleset r)) (prop_key (id_of rl)) = Some 2
                   then Error else Warning),
          evidence = evidence_at (lines r) ln, line = ln, col = cl,
          message = msg, rule = rl, rollup = False\<rparr>]\<rparr>)"

definition Reporter_info ::
  "reporter \<Rightarrow> string \<Rightarrow> int option \<Rightarrow> int option \<Rightarrow> rule_ref \<Rightarrow> reporter" where
  "Reporter_info r msg ln cl rl =
     r\<lparr>messages := messages r @
        [\<lparr>mtype = Info, evidence = evidence_at (lines r) ln, line = ln, col = cl,
          message = msg, rule = rl, rollup = False\<rparr>]\<rparr>"

definition rollupError :: "reporter \<Rightarrow> string \<Rightarrow> rule_ref \<Rightarrow> reporter" where
  "rollupError r msg rl =
     r\<lparr>messages := messages r @
        [\<lparr>mtype = Error, evidence = None, line = None, col = None,
          message = msg, rule = rl, rollup = True\<rparr>]\<rparr>"

definition rollupWarn :: "reporter \<Rightarrow> string \<Rightarrow> rule_ref \<Rightarrow> reporter" where
  "rollupWarn r msg rl =
     r\<lparr>messages := messages r @
        [\<lparr>mtype = Warning, evidence = None, line = None, col = None,
          message = msg, rule = rl, rollup = True\<rparr>]\<rparr>"

definition stat :: "reporter \<Rightarrow> string \<Rightarrow> int \<Rightarrow> reporter" where
  "stat r nm v = r\<lparr>stats := (stats r)(nm \<mapsto> v)\<rparr>"

section \<open>\<open>Array.prototype.sort\<close>\<close>

text \<open>
  \<open>sort\<close> is stable, and with a consistent comparator its result is the one stable
  arrangement, whatever the engine. The model is the stable insertion sort driven by the
  comparator's sign; a comparator result of \<open>NaN\<close> counts as 0, as \<open>sort\<close> reads it.
\<close>

fun insert_by :: "('a \<Rightarrow> 'a \<Rightarrow> int) \<Rightarrow> 'a \<Rightarrow> 'a list \<Rightarrow> 'a list" where
  "insert_by cmp x [] = [x]"
| "insert_by cmp x (y # ys) = (if cmp x y > 0 then y # insert_by cmp x ys else x # y # ys)"

definition js_sort :: "('a \<Rightarrow> 'a \<Rightarrow> int) \<Rightarrow> 'a list \<Rightarrow> 'a list" where
  "js_sort cmp xs = foldr (insert_by cmp) xs []"

section \<open>The rule registry\<close>

text \<open>
  \<open>rules.push\<close> and \<open>rules.slice\<close> are the methods of \<open>Array.prototype\<close> unless an own
  property of that name hides them or the prototype has been replaced; a rule is not a
  function, and a rule has no member of either name.
\<close>

definition has_method :: "state \<Rightarrow> string \<Rightarrow> bool" where
  "has_method st m = (rules_props st m = None \<and> rules_proto st = None)"

text \<open>
  \<open>rules[k] = r\<close>. An array index writes the element and, past the end, extends the array
  over holes. \<open>length\<close> takes no object: a \<open>RangeError\<close>. \<open>__proto__\<close> reaches the inherited
  setter, which makes the object \<open>r\<close> the prototype. Any other key is an own property.
\<close>

definition array_put :: "state \<Rightarrow> string \<Rightarrow> rule \<Rightarrow> js_error option \<times> state" where
  "array_put st k r =
     (case array_index k of
        Some n \<Rightarrow>
          (None,
           st\<lparr>rules := (if n < length (rules st) then (rules st)[n := Some r]
                         else rules st @ replicate (n - length (rules st)) None @ [Some r])\<rparr>)
      | None \<Rightarrow>
          if k = ''length'' then (Some RangeError, st)
          else if k = ''__proto__'' then (None, st\<lparr>rules_proto := Some r\<rparr>)
          else (None, st\<lparr>rules_props := (rules_props st)(k \<mapsto> r)\<rparr>))"

text \<open>
  \<open>addRule(rule)\<close>: \<open>rules.push(rule); rules[rule.id] = rule\<close>. The result is the
  exception thrown, if any, and the state at that point.
\<close>

definition addRule :: "state \<Rightarrow> rule \<Rightarrow> js_error option \<times> state" where
  "addRule st r =
     (if has_method st ''push''
      then array_put (st\<lparr>rules := rules st @ [Some r]\<rparr>) (rule_id r) r
      else (Some TypeError, st))"

text \<open>A sequence of \<open>addRule\<close> calls, which the first exception ends.\<close>

fun addRules :: "state \<Rightarrow> rule list \<Rightarrow> js_error option \<times> state" where
  "addRules st [] = (None, st)"
| "addRules st (r # rs) =
     (case addRule st r of
        (Some err, st') \<Rightarrow> (Some err, st')
      | (None, st') \<Rightarrow> addRules st' rs)"



text \<open>The elements of an array that are not holes, in order, and the number of its holes.\<close>

definition present :: "'a option list \<Rightarrow> 'a list" where
  "present xs = List.map_filter (\<lambda>x. x) xs"

definition holes :: "'a option list \<Rightarrow> nat" where
  "holes xs = length (filter (\<lambda>x. x = None) xs)"



text \<open>
  \<open>getRuleset()\<close>: a new object that maps every registered id to 1. \<open>for (const rule of
  rules)\<close> needs the iterator that arrays inherit, and reads a hole as \<open>undefined\<close>, whose
  \<open>id\<close> cannot be read: both are a \<open>TypeError\<close>, and the new object is lost.
\<close>

definition getRuleset :: "state \<Rightarrow> js_error + state \<times> ref" where
  "getRuleset st =
     (if rules_proto st = None \<and> holes (rules st) = 0
      then Inr (alloc st (foldl (\<lambda>obj r. obj_set obj (rule_id r) 1) [] (present (rules st))))
      else Inl TypeError)"

text \<open>
  \<open>rules[k]\<close> as \<open>verify\<close> reads it: nothing or a falsy value, a rule, or some other value
  that is truthy and has no \<open>init\<close> (a number, a string, a function, an array, a
  prototype).
\<close>

datatype member = Absent | Rule rule | NoInit

definition string_member :: "string \<Rightarrow> member" where
  "string_member v = (if v = [] then Absent else NoInit)"

text \<open>The own properties of a rule object; \<open>None\<close> when the rule has no such property.\<close>

definition rule_member :: "rule \<Rightarrow> string \<Rightarrow> member option" where
  "rule_member r k =
     (if k = ''id'' then Some (string_member (rule_id r))
      else if k = ''name'' then Some (string_member (name r))
      else if k = ''desc'' then Some (string_member (desc r))
      else if k = ''url'' then map_option string_member (url r)
      else if k = ''browsers'' then Some (string_member (browsers r))
      else if k = ''tags'' then map_option (\<lambda>t. NoInit) (tags r)
      else if k = ''init'' then Some NoInit
      else None)"

definition rules_get :: "state \<Rightarrow> string \<Rightarrow> member" where
  "rules_get st k =
     (case array_index k of
        Some n \<Rightarrow>
          (if n < length (rules st)
           then (case rules st ! n of None \<Rightarrow> Absent | Some r \<Rightarrow> Rule r)
           else Absent)
      | None \<Rightarrow>
          if k = ''length'' then (if rules st = [] then Absent else NoInit)
          else
            (case rules_props st k of
               Some r \<Rightarrow> Rule r
             | None \<Rightarrow>
                 (case rules_proto st of
                    None \<Rightarrow>
                      if k \<in> set Array_prototype_names \<or> k \<in> set Object_prototype_names
                      then NoInit else Absent
                  | Some p \<Rightarrow>
                      if k = ''__proto__'' then Rule p
                      else (case rule_member p k of
                              Some v \<Rightarrow> v
                            | None \<Rightarrow> if k \<in> set Object_prototype_names then NoInit
                                      else Absent))))"

section \<open>The override-directive extractor\<close>

text \<open>
  The table by its own keys. For a value that names an inherited member (\<open>constructor\<close>,
  \<open>__proto__\<close>) the lookup of the source yields that member, which is no number and so
  no severity of this model; the lookup is in the body of the \<open>switch\<close>, which is never
  run (\<open>applyEmbeddedOverrides_frame\<close> below).
\<close>

definition EBMEDDED_RULE_VALUE_MAP :: "string \<rightharpoonup> int" where
  "EBMEDDED_RULE_VALUE_MAP =
     map_of [(''true'', 2), (''2'', 2), ([], 1), (''1'', 1), (''false'', 0), (''0'', 0)]"

text \<open>
  The variables of \<open>applyEmbeddedOverrides\<close>. The function writes to the objects its
  caller passes; \<open>verify\<close> passes objects that nothing else refers to yet, so their
  contents travel with the loop: \<open>o_ruleset\<close>, \<open>o_allow\<close>, \<open>o_ignore\<close>. \<open>None\<close> is \<open>null\<close>,
  \<open>cursor\<close> is \<open>RX_EMBEDDED.lastIndex\<close>.
\<close>

record overrides =
  o_ruleset :: ruleset
  o_allow :: "int \<rightharpoonup> string set"
  o_ignore :: "(int \<times> int) list"
  ignoreStart :: "int option"
  ignoreEnd :: "int option"
  lineno :: int
  eol :: int
  cursor :: nat

text \<open>
  \<open>cmd\<close> is \<open>ovr.split(':', 1)\<close>, an array. An array has no \<open>trim\<close>, so \<open>cmd.trim()\<close> calls
  \<open>undefined\<close>: a \<open>TypeError\<close>, whatever the array holds.
\<close>

definition array_trim :: "string list \<Rightarrow> js_error + string" where
  "array_trim cmd = Inl TypeError"

text \<open>One \<open>id:value\<close> pair of the \<open>default\<close> branch.\<close>

definition set_severity :: "overrides \<Rightarrow> string \<Rightarrow> overrides" where
  "set_severity s rl =
     (let pair = split CHR '':'' rl;
          property = hd pair;
          v = (if 1 < length pair then pair ! 1 else []);
          mapped = EBMEDDED_RULE_VALUE_MAP (trim v)
      in s\<lparr>o_ruleset := obj_set (o_ruleset s) (trim property)
                            (case mapped of None \<Rightarrow> 1 | Some n \<Rightarrow> n)\<rparr>)"

text \<open>The body of \<open>switch (cmd.trim())\<close>, for the string \<open>c\<close> that the switch would see.\<close>

definition directive :: "string \<Rightarrow> string \<Rightarrow> nat \<Rightarrow> overrides \<Rightarrow> overrides" where
  "directive c ovr i s =
     (if c = ''allow'' then
        (let allowRuleset = map trim (split CHR '','' (drop i ovr));
             num = length allowRuleset
         in if num \<noteq> 0 then s\<lparr>o_allow := (o_allow s)(lineno s + 1 \<mapsto> set allowRuleset)\<rparr>
            else s)
      else if c = ''ignore'' then
        (if lastIndexOf ovr ''start'' i > 0 then
           (if ignoreStart s = None then s\<lparr>ignoreStart := Some (lineno s)\<rparr> else s)
         else if lastIndexOf ovr ''end'' i > 0 then
           (case ignoreStart s of
              None \<Rightarrow> s\<lparr>ignoreEnd := Some (lineno s)\<rparr>
            | Some a \<Rightarrow> s\<lparr>o_ignore := o_ignore s @ [(a, lineno s)],
                          ignoreStart := None, ignoreEnd := None\<rparr>)
         else s)
      else foldl set_severity s (split CHR '','' (drop i ovr)))"

text \<open>
  \<open>eol = (text.indexOf('\n', eol) + 1 || text.length + 1) - 1\<close>: the search starts at
  \<open>eol\<close> itself.
\<close>

definition next_eol :: "string \<Rightarrow> int \<Rightarrow> int" where
  "next_eol text e =
     (let p = indexOf text [NL] (nat e) + 1
      in (if p \<noteq> 0 then p else int (length text) + 1) - 1)"

lemma rx_group_shorter: "rx_group acc s = Some (g, rest) \<Longrightarrow> length rest < length s"
  by (induction acc s rule: rx_group.induct) (auto split: if_splits)

lemma rx_spaces1_shorter: "rx_spaces1 s = Some (g, rest) \<Longrightarrow> length rest < length s"
proof (induction s)
  case Nil
  then show ?case by simp
next
  case (Cons c cs)
  then show ?case
    by (cases "rx_spaces1 cs") (auto split: if_splits dest: rx_group_shorter)
qed

lemma rx_csslint_shorter: "rx_csslint s = Some (g, rest) \<Longrightarrow> length rest < length s"
  by (auto simp: rx_csslint_def split: if_splits dest!: rx_spaces1_shorter)

lemma rx_spaces0_shorter: "rx_spaces0 s = Some (g, rest) \<Longrightarrow> length rest < length s"
proof (induction s)
  case Nil
  then show ?case by (auto dest: rx_csslint_shorter)
next
  case (Cons c cs)
  then show ?case
    by (cases "rx_spaces0 cs") (auto split: if_splits dest: rx_csslint_shorter)
qed

lemma rx_here_shorter: "rx_here s = Some (g, rest) \<Longrightarrow> length rest < length s"
  by (auto simp: rx_here_def split: if_splits dest!: rx_spaces0_shorter)

lemma rx_search_bounds:
  "rx_search s i = Some (idx, g, e) \<Longrightarrow> i \<le> idx \<and> idx < e \<and> e \<le> i + length s"
proof (induction s arbitrary: i)
  case Nil
  then show ?case by simp
next
  case (Cons c cs)
  show ?case
  proof (cases "rx_here (c # cs)")
    case None
    with Cons.prems have "rx_search cs (Suc i) = Some (idx, g, e)" by simp
    from Cons.IH [OF this] show ?thesis by simp
  next
    case (Some r)
    obtain g' rest where r: "r = (g', rest)" by (cases r)
    from Some r have "length rest < length (c # cs)" by (auto dest: rx_here_shorter)
    with Cons.prems Some r show ?thesis by auto
  qed
qed

lemma RX_EMBEDDED_exec_bounds:
  "RX_EMBEDDED_exec text li = Some (idx, g, e) \<Longrightarrow> li \<le> idx \<and> idx < e \<and> e \<le> length text"
  by (auto simp: RX_EMBEDDED_exec_def split: if_splits dest!: rx_search_bounds)

lemma cursor_set_severity: "cursor (set_severity s rl) = cursor s"
  by (simp add: set_severity_def Let_def)

lemma cursor_foldl_set_severity: "cursor (foldl set_severity s rls) = cursor s"
  by (induction rls arbitrary: s) (simp_all add: cursor_set_severity)

lemma cursor_directive: "cursor (directive c ovr i s) = cursor s"
  by (simp add: directive_def Let_def cursor_foldl_set_severity split: option.splits)

text \<open>
  The loop \<open>for (let eol = 0, m; (m = RX_EMBEDDED.exec(text)); lineno++)\<close>. A failed
  \<open>exec\<close> resets the cursor and ends the loop; \<open>continue\<close> still runs \<open>lineno++\<close>. The result
  is the exception thrown, if any, and the variables at that point.
\<close>

function overrides_loop :: "string \<Rightarrow> overrides \<Rightarrow> js_error option \<times> overrides" where
  "overrides_loop text s =
     (case RX_EMBEDDED_exec text (cursor s) of
        None \<Rightarrow> (None, s\<lparr>cursor := 0\<rparr>)
      | Some (index, m1, e) \<Rightarrow>
          (let s1 = s\<lparr>cursor := e, eol := next_eol text (eol s)\<rparr>
           in if eol s1 < int index then overrides_loop text (s1\<lparr>lineno := lineno s1 + 1\<rparr>)
              else
                (let ovr = toLowerCase m1;
                     cmd = take 1 (split CHR '':'' ovr);
                     i = length cmd + 1
                 in case array_trim cmd of
                      Inl err \<Rightarrow> (Some err, s1)
                    | Inr c \<Rightarrow>
                        (let s2 = directive c ovr i s1
                         in overrides_loop text (s2\<lparr>lineno := lineno s2 + 1\<rparr>)))))"
  by pat_completeness auto
termination
  by (relation "measure (\<lambda>(text, s). Suc (length text) - cursor s)")
     (auto simp: cursor_directive dest!: RX_EMBEDDED_exec_bounds)

text \<open>
  \<open>applyEmbeddedOverrides(text, ruleset, allow, ignore)\<close>, entered with the cursor that
  \<open>verify\<close> has set. After the loop an open ignore block is closed.
\<close>

definition applyEmbeddedOverrides ::
  "string \<Rightarrow> nat \<Rightarrow> ruleset \<Rightarrow> (int \<rightharpoonup> string set) \<Rightarrow> (int \<times> int) list
     \<Rightarrow> js_error option \<times> overrides" where
  "applyEmbeddedOverrides text li rs al ig =
     (case overrides_loop text
             \<lparr>o_ruleset = rs, o_allow = al, o_ignore = ig, ignoreStart = None,
              ignoreEnd = None, lineno = 0, eol = 0, cursor = li\<rparr> of
        (Some err, s) \<Rightarrow> (Some err, s)
      | (None, s) \<Rightarrow>
          (case ignoreStart s of
             None \<Rightarrow> (None, s)
           | Some a \<Rightarrow> (None, s\<lparr>o_ignore := o_ignore s @ [(a, lineno s)]\<rparr>)))"

section \<open>The parser and the rules' listeners\<close>

text \<open>
  The parser and the listeners that the rules attach in \<open>init\<close> reach \<open>verify\<close> through
  the Reporter only. They are a parameter of the model: a function from the text and
  the rules initialised, in order, to the Reporter calls made, in order, and the
  exception that ended \<open>parser.parse\<close>, if any. \<open>Inl\<close> is the exception that an \<open>init\<close>
  of these rules throws, which \<open>verify\<close> does not catch. Positions in parser events are
  numbers; a rule passes itself as the rule.
\<close>

datatype action =
    CallError string int int rule
  | CallReport string int int rule
  | CallInfo string int int rule
  | CallRollupError string rule
  | CallRollupWarn string rule
  | CallStat string int

record exception =
  ex_message :: string
  ex_line :: "int option"
  ex_col :: "int option"

type_synonym engine = "string \<Rightarrow> rule list \<Rightarrow> js_error + action list \<times> exception option"

fun perform :: "(ref \<Rightarrow> ruleset) \<Rightarrow> reporter \<Rightarrow> action \<Rightarrow> reporter" where
  "perform h r (CallError msg ln cl rl) = Reporter_error r msg (Some ln) (Some cl) (Registered rl)"
| "perform h r (CallReport msg ln cl rl) =
     Reporter_report h r msg (Some ln) (Some cl) (Registered rl)"
| "perform h r (CallInfo msg ln cl rl) = Reporter_info r msg (Some ln) (Some cl) (Registered rl)"
| "perform h r (CallRollupError msg rl) = rollupError r msg (Registered rl)"
| "perform h r (CallRollupWarn msg rl) = rollupWarn r msg (Registered rl)"
| "perform h r (CallStat nm v) = stat r nm v"

section \<open>\<open>verify\<close>\<close>

record report =
  report_messages :: "message list"
  report_stats :: "string \<rightharpoonup> int"
  report_ruleset :: ref
  report_allow :: "int \<rightharpoonup> string set"
  report_ignore :: "(int \<times> int) list"

text \<open>
  The value that \<open>verify\<close> assigns to \<open>RX_EMBEDDED.lastIndex\<close>:
  \<^verbatim>\<open>text.lastIndexOf('/*', text.indexOf('csslint', text.indexOf('/*') + 1 || text.length) + 1)\<close>
\<close>

definition prescan :: "string \<Rightarrow> int" where
  "prescan text =
     (let a = indexOf text ''/*'' 0 + 1;
          b = indexOf text ''csslint'' (nat (if a \<noteq> 0 then a else int (length text))) + 1
      in lastIndexOf text ''/*'' (nat b))"

text \<open>
  \<^verbatim>\<open>(a, b) => a.rollup && !b.rollup ? 1 : !a.rollup && b.rollup ? -1 : a.line - b.line\<close>
  The difference is \<open>NaN\<close> when a line is undefined.
\<close>

definition compare_messages :: "message \<Rightarrow> message \<Rightarrow> int" where
  "compare_messages a b =
     (if rollup a \<and> \<not> rollup b then 1
      else if \<not> rollup a \<and> rollup b then -1
      else (case (line a, line b) of
              (Some x, Some y) \<Rightarrow> x - y
            | _ \<Rightarrow> 0))"

text \<open>
  \<open>Object.keys(ruleset).forEach(id => ruleset[id] && rules[id] && rules[id].init(parser,
  reporter))\<close>: the rules initialised, in order, up to the first key under which \<open>rules\<close>
  has a truthy value without an \<open>init\<close>; calling that \<open>undefined\<close> is a \<open>TypeError\<close>, and
  the second component says that the loop ended so.
\<close>

fun resolve :: "state \<Rightarrow> ruleset \<Rightarrow> string list \<Rightarrow> rule list \<times> bool" where
  "resolve st obj [] = ([], False)"
| "resolve st obj (k # ks) =
     (if obj_get obj k = None \<or> obj_get obj k = Some 0 then resolve st obj ks
      else (case rules_get st k of
              Absent \<Rightarrow> resolve st obj ks
            | Rule r \<Rightarrow> (r # fst (resolve st obj ks), snd (resolve st obj ks))
            | NoInit \<Rightarrow> ([], True)))"

text \<open>
  The Reporter when \<open>parser.parse\<close> is over: the calls made, then the \<open>catch\<close> block.
\<close>

definition after_parse ::
  "(ref \<Rightarrow> ruleset) \<Rightarrow> reporter \<Rightarrow> action list \<times> exception option \<Rightarrow> reporter" where
  "after_parse h r out =
     (let r1 = foldl (perform h) r (fst out)
      in case snd out of
           None \<Rightarrow> r1
         | Some ex \<Rightarrow>
             Reporter_error r1 (''Fatal error, cannot continue: '' @ ex_message ex)
               (ex_line ex) (ex_col ex) EmptyObject)"

text \<open>
  \<open>verify\<close> from \<open>new Reporter\<close> on, for the object \<open>rs\<close> that \<open>ruleset\<close> then refers to.
  \<open>reporter_of\<close> is the Reporter at the end of the \<open>catch\<close> block, \<open>assemble\<close> the report
  with its messages sorted.
\<close>

definition force_errors :: "state \<Rightarrow> ref \<Rightarrow> state" where
  "force_errors st rs = st\<lparr>objs := (objs st)(rs := obj_set (objs st rs) ''errors'' 2)\<rparr>"

definition reporter_of ::
  "engine \<Rightarrow> state \<Rightarrow> string \<Rightarrow> ref \<Rightarrow> (int \<rightharpoonup> string set) \<Rightarrow> (int \<times> int) list
     \<Rightarrow> js_error + reporter" where
  "reporter_of E st text rs al ig =
     (let reporter = Reporter [] rs al ig;
          st1 = force_errors st rs;
          obj = objs st1 rs;
          inits = resolve st1 obj (obj_keys obj)
      in case E text (fst inits) of
           Inl err \<Rightarrow> Inl err
         | Inr out \<Rightarrow>
             if snd inits then Inl TypeError
             else Inr (after_parse (objs st1) reporter out))"

definition assemble :: "reporter \<Rightarrow> report" where
  "assemble r =
     \<lparr>report_messages = js_sort compare_messages (messages r), report_stats = stats r,
      report_ruleset = ruleset r, report_allow = allow r, report_ignore = ignore r\<rparr>"

definition run_rules ::
  "engine \<Rightarrow> state \<Rightarrow> string \<Rightarrow> ref \<Rightarrow> (int \<rightharpoonup> string set) \<Rightarrow> (int \<times> int) list
     \<Rightarrow> (js_error + reporter) \<times> state" where
  "run_rules E st text rs al ig = (reporter_of E st text rs al ig, force_errors st rs)"

text \<open>
  \<open>verify\<close> from the assignment to \<open>RX_EMBEDDED.lastIndex\<close> to the end of the \<open>catch\<close>
  block, for the object \<open>rs\<close> that \<open>ruleset\<close> refers to. The result is the Reporter or the
  exception that leaves \<open>verify\<close>, and the state at that point.
\<close>

definition verify_with ::
  "engine \<Rightarrow> state \<Rightarrow> string \<Rightarrow> ref \<Rightarrow> (js_error + reporter) \<times> state" where
  "verify_with E st text rs =
     (let st2 = st\<lparr>lastIndex := prescan text\<rparr>
      in if lastIndex st2 \<ge> 0 then
           (let (st3, clone) = alloc st2 (obj_clone (objs st2 rs))
            in case applyEmbeddedOverrides text (nat (lastIndex st3)) (objs st3 clone)
                      Map.empty [] of
                 (Some err, s) \<Rightarrow>
                   (Inl err, st3\<lparr>objs := (objs st3)(clone := o_ruleset s),
                                  lastIndex := int (cursor s)\<rparr>)
               | (None, s) \<Rightarrow>
                   run_rules E
                     (st3\<lparr>objs := (objs st3)(clone := o_ruleset s), lastIndex := int (cursor s)\<rparr>)
                     text clone (o_allow s) (o_ignore s))
         else run_rules E st2 text rs Map.empty [])"

text \<open>
  \<open>verify(text, ruleset)\<close> up to the end of the \<open>catch\<close> block; \<open>None\<close> is a call without
  a ruleset, which starts with \<open>getRuleset()\<close>.
\<close>

definition verify_reporter ::
  "engine \<Rightarrow> state \<Rightarrow> string \<Rightarrow> ref option \<Rightarrow> (js_error + reporter) \<times> state" where
  "verify_reporter E st text arg =
     (case arg of
        Some r \<Rightarrow> verify_with E st text r
      | None \<Rightarrow>
          (case getRuleset st of
             Inl err \<Rightarrow> (Inl err, st)
           | Inr (st1, rs) \<Rightarrow> verify_with E st1 text rs))"

text \<open>\<open>verify(text, ruleset)\<close>: the report assembled from the Reporter, or the exception.\<close>

definition verify ::
  "engine \<Rightarrow> state \<Rightarrow> string \<Rightarrow> ref option \<Rightarrow> (js_error + report) \<times> state" where
  "verify E st text arg =
     (case verify_reporter E st text arg of
        (Inl err, st') \<Rightarrow> (Inl err, st')
      | (Inr r, st') \<Rightarrow> (Inr (assemble r), st'))"

section \<open>The worker's \<open>run\<close> command\<close>

definition str_includes :: "string \<Rightarrow> string \<Rightarrow> bool" where
  "str_includes s p = (indexOf s p 0 \<noteq> -1)"

text \<open>
  \<open>config\<close> arrives in the message as a value: a new object of the worker's, or nothing.
\<close>

definition receive_config :: "state \<Rightarrow> ruleset option \<Rightarrow> state \<times> ref option" where
  "receive_config st config =
     (case config of
        None \<Rightarrow> (st, None)
      | Some obj \<Rightarrow> (let (st', r) = alloc st obj in (st', Some r)))"

text \<open>
  The result is what \<open>postMessage\<close> gets; an exception from \<open>verify\<close> leaves the handler
  before anything is posted.
\<close>

definition worker_run ::
  "engine \<Rightarrow> state \<Rightarrow> string \<Rightarrow> ruleset option \<Rightarrow> (js_error + message list) \<times> state" where
  "worker_run E st code config =
     (let (st1, arg) = receive_config st config
      in case verify E st1 code arg of
           (Inl err, st2) \<Rightarrow> (Inl err, st2)
         | (Inr rep, st2) \<Rightarrow>
             (Inr (map (\<lambda>m. m\<lparr>rule := IdOnly (id_of (rule m))\<rparr>)
                    (filter (\<lambda>m. \<not> str_includes (message m) ''/*[['' \<and>
                                  \<not> str_includes (message m) '']]*/'')
                       (report_messages rep))),
              st2))"

section \<open>Fixtures for concrete runs\<close>

text \<open>The rule \<open>important\<close> as the source registers it, and a second rule.\<close>

definition important :: rule where
  "important =
     \<lparr>rule_id = ''important'', name = ''Disallow !important'',
      desc = ''Be careful when using !important declaration'',
      url = Some ''https://github.com/CSSLint/csslint/wiki/Disallow-%21important'',
      browsers = ''All'', tags = None\<rparr>"

definition ids_rule :: rule where
  "ids_rule =
     \<lparr>rule_id = ''ids'', name = ''Disallow IDs in selectors'',
      desc = ''Selectors should not contain IDs.'',
      url = Some ''https://github.com/CSSLint/csslint/wiki/Disallow-IDs-in-selectors'',
      browsers = ''All'', tags = None\<rparr>"

text \<open>A state with nothing registered and no object allocated.\<close>

definition empty_state :: state where
  "empty_state =
     \<lparr>objs = (\<lambda>_. []), next_ref = 0, lastIndex = 0, rules = [], rules_props = Map.empty,
      rules_proto = None\<rparr>"

text \<open>
  A state with both rules registered, and the caller's ruleset \<open>{important: 1}\<close> at
  address 0.
\<close>

definition caller_state :: state where
  "caller_state =
     fst (alloc (snd (addRules empty_state [important, ids_rule])) [(''important'', 1)])"

text \<open>A Reporter with line 3 allowing \<open>important\<close> and lines 5 to 7 ignored.\<close>

definition sample_reporter :: reporter where
  "sample_reporter = Reporter [] 0 [3 \<mapsto> {''important''}] [(5, 7)]"

text \<open>
  A run of the rules on a sheet with three findings and one rollup at the end of the
  sheet, and a run that a listener ends with an exception that has no position.
\<close>

definition sample_engine :: engine where
  "sample_engine text rls =
     Inr ([CallReport ''Use of !important'' 5 3 important,
           CallReport ''Do not use IDs'' 3 1 ids_rule,
           CallReport ''Use of !important'' 3 20 important,
           CallRollupWarn ''Too many !important declarations'' important], None)"

definition failing_engine :: engine where
  "failing_engine text rls =
     Inr ([CallReport ''Use of !important'' 5 3 important,
           CallReport ''Do not use IDs'' 3 1 ids_rule],
          Some \<lparr>ex_message = ''x is undefined'', ex_line = None, ex_col = None\<rparr>)"



definition toString_rule :: rule where
  "toString_rule =
     \<lparr>rule_id = ''toString'', name = ''To string'',
      desc = ''A rule whose id is a name that objects inherit.'',
      url = None, browsers = ''All'', tags = None\<rparr>"


text \<open>The registry: all that \<open>verify\<close> and \<open>getRuleset\<close> read of the array \<open>rules\<close>.\<close>

definition registry :: "state \<Rightarrow> rule option list \<times> (string \<rightharpoonup> rule) \<times> rule option" where
  "registry st = (rules st, rules_props st, rules_proto st)"

text \<open>The exception that a call ends with, if it ends with one.\<close>

definition exception_of :: "(js_error + 'a) \<times> state \<Rightarrow> js_error option" where
  "exception_of res = (case fst res of Inl err \<Rightarrow> Some err | Inr v \<Rightarrow> None)"

text \<open>
  A run with one finding of \<open>important\<close> on line 3, and a sheet whose line 3 lies between
  \<open>ignore:start\<close> on line 2 and \<open>ignore:end\<close> on line 4.
\<close>

definition important_engine :: engine where
  "important_engine text rls = Inr ([CallReport ''Use of !important'' 3 16 important], None)"

definition ignore_sheet :: string where
  "ignore_sheet =
     ''a {}'' @ [NL] @ ''/* csslint ignore:start */'' @ [NL] @
     ''a { color: red !important }'' @ [NL] @ ''/* csslint ignore:end */''"

text \<open>
  A run on a usercss sheet: one finding, and two parse errors that quote a variable
  placeholder.
\<close>

definition usercss_engine :: engine where
  "usercss_engine text rls =
     Inr ([CallError ''Unexpected token /*[[ at line 2'' 2 10 important,
           CallReport ''Use of !important'' 1 12 important,
           CallError ''Expected RBRACE but found ]]*/'' 2 18 important], None)"

text \<open>
  A report as a value: the ruleset it refers to is read from the store. \<open>result_of\<close> is
  the exception or the report of a call, as a value.
\<close>

definition report_value ::
  "state \<Rightarrow> report \<Rightarrow>
     message list \<times> (string \<rightharpoonup> int) \<times> ruleset \<times> (int \<rightharpoonup> string set) \<times> (int \<times> int) list"
  where
  "report_value st rep =
     (report_messages rep, report_stats rep, objs st (report_ruleset rep), report_allow rep,
      report_ignore rep)"

definition result_of ::
  "(js_error + report) \<times> state \<Rightarrow>
     js_error +
     message list \<times> (string \<rightharpoonup> int) \<times> ruleset \<times> (int \<rightharpoonup> string set) \<times> (int \<times> int) list"
  where
  "result_of res =
     (case fst res of
        Inl err \<Rightarrow> Inl err
      | Inr rep \<Rightarrow> Inr (report_value (snd res) rep))"

text \<open>The same for a call taken up to the end of the \<open>catch\<close> block.\<close>

definition reporter_result ::
  "(js_error + reporter) \<times> state \<Rightarrow>
     js_error +
     message list \<times> (string \<rightharpoonup> int) \<times> ruleset \<times> (int \<rightharpoonup> string set) \<times> (int \<times> int) list"
  where
  "reporter_result res =
     (case fst res of
        Inl err \<Rightarrow> Inl err
      | Inr r \<Rightarrow> Inr (report_value (snd res) (assemble r)))"

section \<open>Sort keys of messages\<close>

text \<open>
  A rollup has no line. A message that a rule sends has a line or is a rollup; only the
  fatal error of the \<open>catch\<close> block can be a message without a line that is no rollup.
\<close>

definition unpositioned_rollup :: "message \<Rightarrow> bool" where
  "unpositioned_rollup m = (if rollup m then line m = None else True)"

definition positioned :: "message \<Rightarrow> bool" where
  "positioned m = (if rollup m then line m = None else line m \<noteq> None)"

text \<open>
  The key that the comparator sorts by: messages with a line by line, then a message
  without a line, then the rollups.
\<close>

definition msg_key :: "message \<Rightarrow> nat \<times> int" where
  "msg_key m =
     (if rollup m then (2, 0)
      else (case line m of None \<Rightarrow> (1, 0) | Some l \<Rightarrow> (0, l)))"

section \<open>Reporter: what is appended, and when\<close>

lemma ignored_iff:
  "ignored r ln \<longleftrightarrow>
     (\<exists>l rg. ln = Some l \<and> rg \<in> set (ignore r) \<and> fst rg \<le> l \<and> l \<le> snd rg)"
  by (cases ln) (simp_all add: ignored_def list_ex_iff Bex_def)

lemma allowed_iff:
  "allowed r ln rl \<longleftrightarrow>
     (\<exists>l ids. ln = Some l \<and> allow r l = Some ids \<and>
        (prop_key (id_of rl) \<in> ids \<or> prop_key (id_of rl) \<in> set Object_prototype_names))"
  by (auto simp: allowed_def split: option.splits)

text \<open>
  C3, as claimed: \<open>report\<close> appends nothing when \<open>rule.id\<close> is a key of the allow map's
  entry for \<open>line\<close> or \<open>line\<close> lies in an ignore range, and exactly one message in every
  other case. It does not: on line 3, whose entry has the one key \<open>important\<close> and which
  lies in no ignore range, a finding of a rule with the id \<open>toString\<close> is not appended,
  since \<open>'toString' in {important: true}\<close> is true.
\<close>

theorem report_suppresses_inherited_name:
  "allow sample_reporter 3 = Some {''important''} \<and>
   rule_id toString_rule \<notin> {''important''} \<and>
   ignore sample_reporter = [(5, 7)] \<and>
   messages sample_reporter = [] \<and>
   messages (Reporter_report (\<lambda>_. [(''toString'', 2)]) sample_reporter ''Finding'' (Some 3)
      (Some 1) (Registered toString_rule)) = []"
  by (simp add: sample_reporter_def Reporter_def Reporter_report_def allowed_def
        toString_rule_def prop_key_def Object_prototype_names_def)

text \<open>
  C3, amended. \<open>Reporter.report(msg, line, col, rule)\<close> appends nothing when the allow map
  has an entry for \<open>line\<close> and \<open>rule.id\<close> is in it as \<open>in\<close> reads it, that is as one of its
  own keys or as the name of a member that every object inherits, or when \<open>line\<close> lies in
  one of the inclusive ignore ranges. In every other case it appends exactly one message,
  of type \<open>error\<close> when the ruleset maps \<open>rule.id\<close> to 2 and of type \<open>warning\<close> otherwise.
\<close>

theorem report_suppressed_or_appended:
  "Reporter_report h r msg ln cl rl =
     (if (\<exists>l ids. ln = Some l \<and> allow r l = Some ids \<and>
            (prop_key (id_of rl) \<in> ids \<or> prop_key (id_of rl) \<in> set Object_prototype_names)) \<or>
         (\<exists>l rg. ln = Some l \<and> rg \<in> set (ignore r) \<and> fst rg \<le> l \<and> l \<le> snd rg)
      then r
      else r\<lparr>messages := messages r @
             [\<lparr>mtype = (if obj_get (h (ruleset r)) (prop_key (id_of rl)) = Some 2
                        then Error else Warning),
               evidence = evidence_at (lines r) ln, line = ln, col = cl,
               message = msg, rule = rl, rollup = False\<rparr>]\<rparr>)"
  unfolding Reporter_report_def allowed_iff ignored_iff by simp

theorem report_suppressed_or_appended_witness:
  "messages (Reporter_report (\<lambda>_. [(''important'', 2)]) sample_reporter ''Use of !important''
      (Some 3) (Some 11) (Registered important)) = [] \<and>
   messages (Reporter_report (\<lambda>_. [(''important'', 2)]) sample_reporter ''Use of !important''
      (Some 6) (Some 11) (Registered important)) = [] \<and>
   messages (Reporter_report (\<lambda>_. [(''toString'', 2)]) sample_reporter ''Finding''
      (Some 3) (Some 1) (Registered toString_rule)) = [] \<and>
   map mtype (messages (Reporter_report (\<lambda>_. [(''toString'', 2)]) sample_reporter ''Finding''
      (Some 4) (Some 1) (Registered toString_rule))) = [Error] \<and>
   map mtype (messages (Reporter_report (\<lambda>_. [(''important'', 2)]) sample_reporter
      ''Use of !important'' (Some 4) (Some 11) (Registered important))) = [Error] \<and>
   map mtype (messages (Reporter_report (\<lambda>_. [(''important'', 1)]) sample_reporter
      ''Use of !important'' (Some 4) (Some 11) (Registered important))) = [Warning] \<and>
   map mtype (messages (Reporter_report (\<lambda>_. [(''important'', 2)]) sample_reporter
      ''Do not use IDs'' (Some 3) (Some 1) (Registered ids_rule))) = [Warning]"
  using
    report_suppressed_or_appended [of "\<lambda>_. [(''important'', 2)]" sample_reporter
      "''Use of !important''" "Some 3" "Some 11" "Registered important"]
    report_suppressed_or_appended [of "\<lambda>_. [(''important'', 2)]" sample_reporter
      "''Use of !important''" "Some 6" "Some 11" "Registered important"]
    report_suppressed_or_appended [of "\<lambda>_. [(''toString'', 2)]" sample_reporter
      "''Finding''" "Some 3" "Some 1" "Registered toString_rule"]
    report_suppressed_or_appended [of "\<lambda>_. [(''toString'', 2)]" sample_reporter
      "''Finding''" "Some 4" "Some 1" "Registered toString_rule"]
    report_suppressed_or_appended [of "\<lambda>_. [(''important'', 2)]" sample_reporter
      "''Use of !important''" "Some 4" "Some 11" "Registered important"]
    report_suppressed_or_appended [of "\<lambda>_. [(''important'', 1)]" sample_reporter
      "''Use of !important''" "Some 4" "Some 11" "Registered important"]
    report_suppressed_or_appended [of "\<lambda>_. [(''important'', 2)]" sample_reporter
      "''Do not use IDs''" "Some 3" "Some 1" "Registered ids_rule"]
  by (simp add: sample_reporter_def Reporter_def important_def ids_rule_def toString_rule_def
        prop_key_def obj_get_def Object_prototype_names_def)

text \<open>
  C4. \<open>Reporter.error\<close> and \<open>Reporter.info\<close> append exactly one message, of type \<open>error\<close>
  and \<open>info\<close>, to the messages of every Reporter: whatever its allow map, its ignore
  ranges and its ruleset hold, and also for a line and a rule that \<open>report\<close> would
  suppress.
\<close>

theorem error_info_always_append:
  "messages (Reporter_error r msg ln cl rl) =
     messages r @
       [\<lparr>mtype = Error, evidence = evidence_at (lines r) ln, line = ln, col = cl,
         message = msg, rule = rl, rollup = False\<rparr>] \<and>
   messages (Reporter_info r msg ln cl rl) =
     messages r @
       [\<lparr>mtype = Info, evidence = evidence_at (lines r) ln, line = ln, col = cl,
         message = msg, rule = rl, rollup = False\<rparr>] \<and>
   length (messages (Reporter_error r msg ln cl rl)) = Suc (length (messages r)) \<and>
   length (messages (Reporter_info r msg ln cl rl)) = Suc (length (messages r))"
  by (simp add: Reporter_error_def Reporter_info_def)

theorem error_info_always_append_witness:
  "allowed sample_reporter (Some 3) (Registered important) \<and>
   ignored sample_reporter (Some 6) \<and>
   map mtype (messages (Reporter_error sample_reporter ''Unexpected token'' (Some 3) (Some 1)
      (Registered important))) = [Error] \<and>
   map mtype (messages (Reporter_info sample_reporter ''Note'' (Some 6) (Some 1)
      (Registered important))) = [Info]"
  using
    error_info_always_append [of sample_reporter "''Unexpected token''" "Some 3" "Some 1"
      "Registered important"]
    error_info_always_append [of sample_reporter "''Note''" "Some 6" "Some 1"
      "Registered important"]
  by (simp add: sample_reporter_def Reporter_def allowed_def ignored_def important_def
        prop_key_def)

section \<open>\<open>sort\<close> with a comparator that follows a key\<close>

lemma insert_by_insort_key:
  "\<forall>y\<in>set ys. (cmp x y > 0) = (f y < f x) \<Longrightarrow> insert_by cmp x ys = insort_key f x ys"
  by (induction ys) (auto simp: not_le)

lemma js_sort_sort_key:
  "sorted_wrt (\<lambda>x y. (cmp x y > 0) = (f y < f x)) xs \<Longrightarrow> js_sort cmp xs = sort_key f xs"
proof (induction xs)
  case Nil
  then show ?case by (simp add: js_sort_def)
next
  case (Cons x xs)
  then have IH: "js_sort cmp xs = sort_key f xs" by simp
  from Cons.prems have "\<forall>y\<in>set (sort_key f xs). (cmp x y > 0) = (f y < f x)" by simp
  then have "insert_by cmp x (sort_key f xs) = insort_key f x (sort_key f xs)"
    by (rule insert_by_insort_key)
  with IH show ?case by (simp add: js_sort_def)
qed




section \<open>The registry: what \<open>getRules\<close> returns\<close>













section \<open>The order of the messages of a report\<close>

lemma positioned_unpositioned_rollup: "positioned m \<Longrightarrow> unpositioned_rollup m"
  by (simp add: positioned_def unpositioned_rollup_def split: if_splits)

lemma compare_messages_sign:
  "positioned x \<Longrightarrow> unpositioned_rollup y \<Longrightarrow>
     (compare_messages x y > 0) = (msg_key y < msg_key x)"
  by (auto simp: compare_messages_def positioned_def unpositioned_rollup_def msg_key_def
        split: if_splits option.splits)

lemma sorted_wrt_pairs:
  "(\<And>x y. x \<in> set xs \<Longrightarrow> y \<in> set xs \<Longrightarrow> P x y) \<Longrightarrow> sorted_wrt P xs"
  by (induction xs) auto

lemma js_sort_messages:
  assumes "list_all positioned body" and "list_all unpositioned_rollup final"
    and "length final \<le> 1"
  shows "js_sort compare_messages (body @ final) = sort_key msg_key (body @ final)"
proof (rule js_sort_sort_key)
  let ?P = "\<lambda>x y. (compare_messages x y > 0) = (msg_key y < msg_key x)"
  have b: "sorted_wrt ?P body"
    using assms(1)
    by (intro sorted_wrt_pairs compare_messages_sign)
       (auto simp: list_all_iff positioned_unpositioned_rollup)
  have f: "sorted_wrt ?P final"
    using assms(3) by (cases final) auto
  have "\<forall>x\<in>set body. \<forall>y\<in>set final. ?P x y"
    using assms(1,2) by (auto simp: list_all_iff intro!: compare_messages_sign)
  with b f show "sorted_wrt ?P (body @ final)"
    by (simp add: sorted_wrt_append)
qed

lemma perform_messages:
  "\<exists>new. messages (perform h r a) = messages r @ new \<and> list_all positioned new"
proof (cases a)
  case (CallReport msg ln cl rl)
  then show ?thesis
    by (cases "allowed r (Some ln) (Registered rl) \<or> ignored r (Some ln)")
       (simp_all add: Reporter_report_def positioned_def)
qed (simp_all add: Reporter_error_def Reporter_info_def rollupError_def rollupWarn_def
       stat_def positioned_def)

lemma foldl_perform_messages:
  "\<exists>new. messages (foldl (perform h) r calls) = messages r @ new \<and> list_all positioned new"
proof (induction calls arbitrary: r)
  case Nil
  then show ?case by simp
next
  case (Cons a calls)
  obtain n1 where n1: "messages (perform h r a) = messages r @ n1" "list_all positioned n1"
    using perform_messages by blast
  obtain n2 where n2: "messages (foldl (perform h) (perform h r a) calls) =
      messages (perform h r a) @ n2" "list_all positioned n2"
    using Cons.IH by blast
  from n1 n2 show ?case by auto
qed

lemma Reporter_error_messages:
  "\<exists>m. messages (Reporter_error r msg ln cl rl) = messages r @ [m] \<and> unpositioned_rollup m"
  by (simp add: Reporter_error_def unpositioned_rollup_def)

lemma after_parse_messages:
  assumes "messages r = []"
  shows "\<exists>body final. messages (after_parse h r out) = body @ final \<and>
           list_all positioned body \<and> list_all unpositioned_rollup final \<and> length final \<le> 1"
proof -
  obtain new where new: "messages (foldl (perform h) r (fst out)) = new" "list_all positioned new"
    using foldl_perform_messages [of h r "fst out"] assms by auto
  show ?thesis
  proof (cases "snd out")
    case None
    with new have "messages (after_parse h r out) = new @ []"
      by (simp add: after_parse_def)
    with new(2) show ?thesis by (intro exI [of _ new] exI [of _ "[]"]) simp
  next
    case (Some ex)
    let ?r1 = "foldl (perform h) r (fst out)"
    let ?msg = "''Fatal error, cannot continue: '' @ ex_message ex"
    have "messages (after_parse h r out) =
        messages (Reporter_error ?r1 ?msg (ex_line ex) (ex_col ex) EmptyObject)"
      using Some by (simp add: after_parse_def Let_def)
    moreover obtain m where
      "messages (Reporter_error ?r1 ?msg (ex_line ex) (ex_col ex) EmptyObject) =
         messages ?r1 @ [m]" "unpositioned_rollup m"
      using Reporter_error_messages by blast
    ultimately have m: "messages (after_parse h r out) = new @ [m]" "unpositioned_rollup m"
      using new(1) by simp_all
    with new(2) show ?thesis
      by (intro exI [of _ new] exI [of _ "[m]"]) simp
  qed
qed

lemma reporter_of_after_parse:
  assumes "reporter_of E st text rs al ig = Inr r"
  shows "\<exists>h r0 out. messages r0 = [] \<and> r = after_parse h r0 out"
proof -
  from assms obtain out where
    "r = after_parse (objs (force_errors st rs)) (Reporter [] rs al ig) out"
    by (auto simp: reporter_of_def Let_def split: sum.splits if_splits)
  moreover have "messages (Reporter [] rs al ig) = []"
    by (simp add: Reporter_def)
  ultimately show ?thesis by blast
qed

lemma verify_reporter_after_parse:
  assumes "verify_reporter E st text arg = (Inr r, st')"
  shows "\<exists>h r0 out. messages r0 = [] \<and> r = after_parse h r0 out"
proof -
  from assms have "\<exists>st0 rs al ig. reporter_of E st0 text rs al ig = Inr r"
    by (auto simp: verify_reporter_def verify_with_def run_rules_def Let_def
          split: prod.splits if_splits option.splits sum.splits)
  then show ?thesis using reporter_of_after_parse by blast
qed

lemma sorted_msg_key_partition:
  assumes "sorted (map msg_key ms)"
  shows "sorted_wrt (\<lambda>a b. rollup a \<longrightarrow> rollup b) ms"
proof -
  have "sorted_wrt (\<lambda>a b. msg_key a \<le> msg_key b) ms"
    using assms by (simp add: sorted_map)
  then show ?thesis
    by (rule sorted_wrt_mono_rel [rotated])
       (auto simp: msg_key_def less_eq_prod_def split: if_splits option.splits)
qed

lemma sorted_msg_key_lines:
  assumes "sorted (map msg_key ms)" and "list_all unpositioned_rollup ms"
  shows "sorted_wrt (\<lambda>a b. \<forall>x y. line a = Some x \<and> line b = Some y \<longrightarrow> x \<le> y) ms"
proof -
  have sw: "sorted_wrt (\<lambda>a b. msg_key a \<le> msg_key b) ms"
    using assms(1) by (simp add: sorted_map)
  show ?thesis
  proof (rule sorted_wrt_mono_rel [OF _ sw])
    fix a b
    assume "a \<in> set ms" "b \<in> set ms" "msg_key a \<le> msg_key b"
    with assms(2) show "\<forall>x y. line a = Some x \<and> line b = Some y \<longrightarrow> x \<le> y"
      by (auto simp: msg_key_def less_eq_prod_def unpositioned_rollup_def list_all_iff
            split: if_splits)
  qed
qed

text \<open>
  C1. In the messages of the report that \<open>verify\<close> returns, no message that is not a
  rollup comes after a rollup, and the lines of the messages are non-decreasing. The
  sort is stable: the messages of one line stand in the order in which the Reporter
  received them, and so do the rollups; no message is lost or added.
\<close>

theorem verify_messages_sorted:
  assumes "verify E st text arg = (Inr rep, st')"
  shows "\<exists>r. verify_reporter E st text arg = (Inr r, st') \<and>
           sorted_wrt (\<lambda>a b. rollup a \<longrightarrow> rollup b) (report_messages rep) \<and>
           sorted_wrt (\<lambda>a b. \<forall>x y. line a = Some x \<and> line b = Some y \<longrightarrow> x \<le> y)
             (report_messages rep) \<and>
           (\<forall>l. filter (\<lambda>m. \<not> rollup m \<and> line m = Some l) (report_messages rep) =
                filter (\<lambda>m. \<not> rollup m \<and> line m = Some l) (messages r)) \<and>
           filter rollup (report_messages rep) = filter rollup (messages r) \<and>
           mset (report_messages rep) = mset (messages r)"
proof -
  from assms obtain r where r: "verify_reporter E st text arg = (Inr r, st')"
    and rep: "rep = assemble r"
    by (auto simp: verify_def split: prod.splits sum.splits)
  obtain body final where ms: "messages r = body @ final"
    and pos: "list_all positioned body" "list_all unpositioned_rollup final" "length final \<le> 1"
    using verify_reporter_after_parse [OF r] after_parse_messages by metis
  have sorted_eq: "report_messages rep = sort_key msg_key (messages r)"
    using js_sort_messages [OF pos] by (simp add: rep assemble_def ms)
  have wf: "list_all unpositioned_rollup (report_messages rep)"
    using pos by (auto simp: sorted_eq ms list_all_iff positioned_unpositioned_rollup)
  have s: "sorted (map msg_key (report_messages rep))"
    by (simp add: sorted_eq)
  have st1: "filter (\<lambda>m. \<not> rollup m \<and> line m = Some l) (report_messages rep) =
             filter (\<lambda>m. \<not> rollup m \<and> line m = Some l) (messages r)" for l
  proof -
    have "filter (\<lambda>m. \<not> rollup m \<and> line m = Some l) xs =
          filter (\<lambda>m. msg_key m = (0, l)) xs" for xs
      by (rule filter_cong) (auto simp: msg_key_def split: option.splits)
    then show ?thesis by (simp add: sorted_eq sort_key_stable)
  qed
  have st2: "filter rollup (report_messages rep) = filter rollup (messages r)"
  proof -
    have "filter rollup xs = filter (\<lambda>m. msg_key m = (2, 0)) xs" for xs
      by (rule filter_cong) (auto simp: msg_key_def split: option.splits)
    then show ?thesis by (simp add: sorted_eq sort_key_stable)
  qed
  from r sorted_msg_key_partition [OF s] sorted_msg_key_lines [OF s wf] st1 st2
  show ?thesis by (auto simp: sorted_eq)
qed

theorem verify_messages_sorted_witness:
  "(\<exists>rep st'.
      verify sample_engine caller_state ''a { color: red !important }'' (Some 0) = (Inr rep, st') \<and>
      map line (report_messages rep) = [Some 3, Some 3, Some 5, None] \<and>
      map message (report_messages rep) =
        [''Do not use IDs'', ''Use of !important'', ''Use of !important'',
         ''Too many !important declarations''] \<and>
      sorted_wrt (\<lambda>a b. rollup a \<longrightarrow> rollup b) (report_messages rep) \<and>
      sorted_wrt (\<lambda>a b. \<forall>x y. line a = Some x \<and> line b = Some y \<longrightarrow> x \<le> y)
        (report_messages rep)) \<and>
   (\<exists>rep st'.
      verify failing_engine caller_state ''a { color: red !important }'' (Some 0) = (Inr rep, st') \<and>
      map line (report_messages rep) = [Some 3, Some 5, None] \<and>
      map rollup (report_messages rep) = [False, False, False] \<and>
      sorted_wrt (\<lambda>a b. rollup a \<longrightarrow> rollup b) (report_messages rep) \<and>
      sorted_wrt (\<lambda>a b. \<forall>x y. line a = Some x \<and> line b = Some y \<longrightarrow> x \<le> y)
        (report_messages rep))"
proof (rule conjI)
  have "case verify sample_engine caller_state ''a { color: red !important }'' (Some 0) of
          (Inr rep, st') \<Rightarrow>
            map line (report_messages rep) = [Some 3, Some 3, Some 5, None] \<and>
            map message (report_messages rep) =
              [''Do not use IDs'', ''Use of !important'', ''Use of !important'',
               ''Too many !important declarations'']
        | (Inl err, st') \<Rightarrow> False"
    by code_simp
  then obtain rep st' where
    v: "verify sample_engine caller_state ''a { color: red !important }'' (Some 0) = (Inr rep, st')"
    and l: "map line (report_messages rep) = [Some 3, Some 3, Some 5, None]"
    and m: "map message (report_messages rep) =
              [''Do not use IDs'', ''Use of !important'', ''Use of !important'',
               ''Too many !important declarations'']"
    by (auto split: prod.splits sum.splits)
  from verify_messages_sorted [OF v] have
    "sorted_wrt (\<lambda>a b. rollup a \<longrightarrow> rollup b) (report_messages rep) \<and>
     sorted_wrt (\<lambda>a b. \<forall>x y. line a = Some x \<and> line b = Some y \<longrightarrow> x \<le> y)
       (report_messages rep)"
    by (elim exE conjE) (intro conjI)
  with v l m show "\<exists>rep st'.
      verify sample_engine caller_state ''a { color: red !important }'' (Some 0) = (Inr rep, st') \<and>
      map line (report_messages rep) = [Some 3, Some 3, Some 5, None] \<and>
      map message (report_messages rep) =
        [''Do not use IDs'', ''Use of !important'', ''Use of !important'',
         ''Too many !important declarations''] \<and>
      sorted_wrt (\<lambda>a b. rollup a \<longrightarrow> rollup b) (report_messages rep) \<and>
      sorted_wrt (\<lambda>a b. \<forall>x y. line a = Some x \<and> line b = Some y \<longrightarrow> x \<le> y)
        (report_messages rep)"
    by (intro exI [of _ rep] exI [of _ st']) simp
next
  have "case verify failing_engine caller_state ''a { color: red !important }'' (Some 0) of
          (Inr rep, st') \<Rightarrow>
            map line (report_messages rep) = [Some 3, Some 5, None] \<and>
            map rollup (report_messages rep) = [False, False, False]
        | (Inl err, st') \<Rightarrow> False"
    by code_simp
  then obtain rep st' where
    v: "verify failing_engine caller_state ''a { color: red !important }'' (Some 0) = (Inr rep, st')"
    and l: "map line (report_messages rep) = [Some 3, Some 5, None]"
    and m: "map rollup (report_messages rep) = [False, False, False]"
    by (auto split: prod.splits sum.splits)
  from verify_messages_sorted [OF v] have
    "sorted_wrt (\<lambda>a b. rollup a \<longrightarrow> rollup b) (report_messages rep) \<and>
     sorted_wrt (\<lambda>a b. \<forall>x y. line a = Some x \<and> line b = Some y \<longrightarrow> x \<le> y)
       (report_messages rep)"
    by (elim exE conjE) (intro conjI)
  with v l m show "\<exists>rep st'.
      verify failing_engine caller_state ''a { color: red !important }'' (Some 0) = (Inr rep, st') \<and>
      map line (report_messages rep) = [Some 3, Some 5, None] \<and>
      map rollup (report_messages rep) = [False, False, False] \<and>
      sorted_wrt (\<lambda>a b. rollup a \<longrightarrow> rollup b) (report_messages rep) \<and>
      sorted_wrt (\<lambda>a b. \<forall>x y. line a = Some x \<and> line b = Some y \<longrightarrow> x \<le> y)
        (report_messages rep)"
    by (intro exI [of _ rep] exI [of _ st']) simp
qed

section \<open>The caller's ruleset\<close>

lemma snd_run_rules: "snd (run_rules E st text rs al ig) = force_errors st rs"
  by (simp add: run_rules_def)

lemma snd_verify: "snd (verify E st text arg) = snd (verify_reporter E st text arg)"
  by (simp add: verify_def split: prod.splits sum.splits)

text \<open>
  C2, as claimed: \<open>verify\<close> leaves the ruleset object of its caller unchanged, its
  \<open>errors\<close> key included. It does not: for a text without a comment the caller's
  \<open>{important: 1}\<close> is \<open>{important: 1, errors: 2}\<close> after the call.
\<close>

theorem verify_mutates_caller_ruleset:
  "objs caller_state 0 = [(''important'', 1)] \<and>
   objs (snd (verify sample_engine caller_state ''a { color: red !important }'' (Some 0))) 0 =
     [(''important'', 1), (''errors'', 2)]"
  by code_simp

lemma objs_after_verify:
  assumes "r < next_ref st"
  shows "objs (snd (verify E st text (Some r))) r =
           (if 0 \<le> prescan text then objs st r else obj_set (objs st r) ''errors'' 2)"
proof (cases "0 \<le> prescan text")
  case True
  let ?st2 = "st\<lparr>lastIndex := prescan text\<rparr>"
  let ?st3 = "fst (alloc ?st2 (obj_clone (objs ?st2 r)))"
  let ?clone = "next_ref st"
  let ?res = "applyEmbeddedOverrides text (nat (lastIndex ?st3)) (objs ?st3 ?clone) Map.empty []"
  from assms have ne: "r \<noteq> ?clone" by simp
  have "objs (snd (verify_reporter E st text (Some r))) r = objs st r"
    using True ne
    by (cases ?res; cases "fst ?res")
       (simp_all add: verify_reporter_def verify_with_def alloc_def Let_def snd_run_rules
          force_errors_def)
  with True show ?thesis by (simp add: snd_verify)
next
  case False
  then have "snd (verify_reporter E st text (Some r)) =
      force_errors (st\<lparr>lastIndex := prescan text\<rparr>) r"
    by (simp add: verify_reporter_def verify_with_def Let_def snd_run_rules)
  with False show ?thesis by (simp add: snd_verify force_errors_def)
qed

text \<open>
  C2, amended. \<open>verify\<close> works on a clone exactly when the value it assigns to
  \<open>RX_EMBEDDED.lastIndex\<close> is not negative; the caller's object is then the same after
  the call, whether \<open>verify\<close> returns or throws. Otherwise \<open>verify\<close> works on the caller's
  object, and the one change it makes to it is to set \<open>errors\<close> to 2.
\<close>

theorem verify_caller_ruleset:
  assumes "r < next_ref st"
  shows "objs (snd (verify E st text (Some r))) r =
           (if 0 \<le> prescan text then objs st r else obj_set (objs st r) ''errors'' 2)"
  using assms by (rule objs_after_verify)

theorem verify_caller_ruleset_witness:
  "0 < next_ref caller_state \<and>
   prescan ''a { color: red !important }'' = -1 \<and>
   objs (snd (verify sample_engine caller_state ''a { color: red !important }'' (Some 0))) 0 =
     [(''important'', 1), (''errors'', 2)] \<and>
   prescan (''a {}'' @ [NL] @ ''/* csslint important:2 */'') = 5 \<and>
   objs (snd (verify sample_engine caller_state (''a {}'' @ [NL] @ ''/* csslint important:2 */'')
     (Some 0))) 0 = [(''important'', 1)]"
proof -
  have n: "0 < next_ref caller_state" by code_simp
  have p1: "prescan ''a { color: red !important }'' = -1" by code_simp
  have p2: "prescan (''a {}'' @ [NL] @ ''/* csslint important:2 */'') = 5" by code_simp
  have o: "objs caller_state 0 = [(''important'', 1)]" by code_simp
  have e: "obj_set [(''important'', 1::int)] ''errors'' 2 = [(''important'', 1), (''errors'', 2)]"
    by code_simp
  from verify_caller_ruleset [OF n, of sample_engine "''a { color: red !important }''"]
    verify_caller_ruleset [OF n, of sample_engine "''a {}'' @ [NL] @ ''/* csslint important:2 */''"]
    n p1 p2 o e
  show ?thesis by simp
qed

section \<open>What the extractor does to its arguments\<close>

text \<open>
  Every directive that is not skipped ends the loop at \<open>cmd.trim()\<close>. So the extractor
  either throws a \<open>TypeError\<close> or returns with the ruleset, the allow map and the ignore
  ranges as they were passed in.
\<close>

lemma overrides_loop_frame:
  "overrides_loop css s = (outcome, t) \<Longrightarrow>
     o_ruleset t = o_ruleset s \<and> o_allow t = o_allow s \<and> o_ignore t = o_ignore s \<and>
     ignoreStart t = ignoreStart s \<and> (outcome = None \<or> outcome = Some TypeError)"
proof (induction css s arbitrary: outcome t rule: overrides_loop.induct)
  case (1 css s)
  show ?case
  proof (cases "RX_EMBEDDED_exec css (cursor s)")
    case None
    with "1.prems" show ?thesis
      by (subst (asm) overrides_loop.simps) auto
  next
    case (Some m)
    obtain index m1 e where m: "m = (index, m1, e)" by (cases m)
    let ?s1 = "s\<lparr>cursor := e, eol := next_eol css (eol s)\<rparr>"
    show ?thesis
    proof (cases "eol ?s1 < int index")
      case True
      with "1.prems" Some m have
        "overrides_loop css (?s1\<lparr>lineno := lineno ?s1 + 1\<rparr>) = (outcome, t)"
        by (subst (asm) overrides_loop.simps) (simp add: Let_def)
      from "1.IH"(1) [OF Some m [symmetric] refl refl True this] show ?thesis by simp
    next
      case False
      with "1.prems" Some m show ?thesis
        by (subst (asm) overrides_loop.simps) (auto simp: Let_def array_trim_def)
    qed
  qed
qed

lemma applyEmbeddedOverrides_frame:
  "fst (applyEmbeddedOverrides text li rs al ig) = Some TypeError \<or>
   fst (applyEmbeddedOverrides text li rs al ig) = None \<and>
   o_ruleset (snd (applyEmbeddedOverrides text li rs al ig)) = rs \<and>
   o_allow (snd (applyEmbeddedOverrides text li rs al ig)) = al \<and>
   o_ignore (snd (applyEmbeddedOverrides text li rs al ig)) = ig"
proof -
  let ?s0 = "\<lparr>o_ruleset = rs, o_allow = al, o_ignore = ig, ignoreStart = None,
              ignoreEnd = None, lineno = 0, eol = 0, cursor = li\<rparr>"
  obtain res s' where l: "overrides_loop text ?s0 = (res, s')" by (cases "overrides_loop text ?s0")
  from overrides_loop_frame [OF l] l show ?thesis
    by (auto simp: applyEmbeddedOverrides_def)
qed

text \<open>
  C6. A severity directive \<open>id:value\<close> should set the ruleset entry of \<open>id\<close> to 2, 1 or 0.
  The extractor never writes to the ruleset. With \<open>important:false\<close> on the first line
  \<open>verify\<close> ends with a \<open>TypeError\<close>; with the directive on the second line it is skipped
  and \<open>important\<close> keeps its severity 1.
\<close>

theorem severity_directive_not_applied:
  "(fst (applyEmbeddedOverrides text li rs al ig) = Some TypeError \<or>
    o_ruleset (snd (applyEmbeddedOverrides text li rs al ig)) = rs) \<and>
   exception_of (verify sample_engine caller_state
          ''/* csslint important:false */ a { color: red !important }'' (Some 0)) =
     Some TypeError \<and>
   (case verify sample_engine caller_state
           (''a { color: red !important }'' @ [NL] @ ''/* csslint important:false */'') (Some 0) of
      (Inr rep, st') \<Rightarrow> objs st' (report_ruleset rep)
    | (Inl err, st') \<Rightarrow> []) = [(''important'', 1), (''errors'', 2)]"
proof -
  have "exception_of (verify sample_engine caller_state
          ''/* csslint important:false */ a { color: red !important }'' (Some 0)) =
     Some TypeError"
    by code_simp
  moreover have "(case verify sample_engine caller_state
           (''a { color: red !important }'' @ [NL] @ ''/* csslint important:false */'') (Some 0) of
      (Inr rep, st') \<Rightarrow> objs st' (report_ruleset rep)
    | (Inl err, st') \<Rightarrow> []) = [(''important'', 1), (''errors'', 2)]"
    by code_simp
  ultimately show ?thesis
    using applyEmbeddedOverrides_frame [of "text" li rs al ig] by blast
qed

text \<open>
  C7. An allow directive that is the first match should be recorded in the allow map
  under the key 1. The extractor never writes to the allow map. With the directive on
  the first line \<open>verify\<close> ends with a \<open>TypeError\<close>; with the directive on the second line
  the allow map of the report has no entry for 1.
\<close>

theorem allow_directive_not_recorded:
  "(fst (applyEmbeddedOverrides text li rs al ig) = Some TypeError \<or>
    o_allow (snd (applyEmbeddedOverrides text li rs al ig)) = al) \<and>
   exception_of (verify sample_engine caller_state
          ''/* csslint allow: important */ a { color: red !important }'' (Some 0)) =
     Some TypeError \<and>
   (case verify sample_engine caller_state
           (''a {}'' @ [NL] @ ''/* csslint allow: important */ a { color: red !important }'')
           (Some 0) of
      (Inr rep, st') \<Rightarrow> report_allow rep 1
    | (Inl err, st') \<Rightarrow> Some {}) = None"
proof -
  have "exception_of (verify sample_engine caller_state
          ''/* csslint allow: important */ a { color: red !important }'' (Some 0)) =
     Some TypeError"
    by code_simp
  moreover have "(case verify sample_engine caller_state
           (''a {}'' @ [NL] @ ''/* csslint allow: important */ a { color: red !important }'')
           (Some 0) of
      (Inr rep, st') \<Rightarrow> report_allow rep 1
    | (Inl err, st') \<Rightarrow> Some {}) = None"
    by code_simp
  ultimately show ?thesis
    using applyEmbeddedOverrides_frame [of "text" li rs al ig] by blast
qed

text \<open>
  C8. A finding of \<open>report\<close> between \<open>ignore:start\<close> and \<open>ignore:end\<close> should be missing from
  the report. The extractor never adds an ignore range. With \<open>ignore:start\<close> on the first
  line \<open>verify\<close> ends with a \<open>TypeError\<close>; with the span on lines 2 to 4 the report has no
  ignore range and still has the finding on line 3.
\<close>

theorem ignore_span_not_applied:
  "(fst (applyEmbeddedOverrides text li rs al ig) = Some TypeError \<or>
    o_ignore (snd (applyEmbeddedOverrides text li rs al ig)) = ig) \<and>
   exception_of (verify important_engine caller_state
          (''/* csslint ignore:start */'' @ [NL] @ ''a {}'' @ [NL] @
           ''a { color: red !important }'' @ [NL] @ ''/* csslint ignore:end */'') (Some 0)) =
     Some TypeError \<and>
   (case verify important_engine caller_state ignore_sheet (Some 0) of
      (Inr rep, st') \<Rightarrow>
        (report_ignore rep, map (\<lambda>m. (mtype m, line m, message m)) (report_messages rep))
    | (Inl err, st') \<Rightarrow> ([], [])) = ([], [(Warning, Some 3, ''Use of !important'')])"
proof -
  have "exception_of (verify important_engine caller_state
          (''/* csslint ignore:start */'' @ [NL] @ ''a {}'' @ [NL] @
           ''a { color: red !important }'' @ [NL] @ ''/* csslint ignore:end */'') (Some 0)) =
     Some TypeError"
    by code_simp
  moreover have "(case verify important_engine caller_state ignore_sheet (Some 0) of
      (Inr rep, st') \<Rightarrow>
        (report_ignore rep, map (\<lambda>m. (mtype m, line m, message m)) (report_messages rep))
    | (Inl err, st') \<Rightarrow> ([], [])) = ([], [(Warning, Some 3, ''Use of !important'')])"
    by code_simp
  ultimately show ?thesis
    using applyEmbeddedOverrides_frame [of "text" li rs al ig] by blast
qed

section \<open>The worker's \<open>run\<close> command: what is posted\<close>

lemma occurs_at_split: "occurs_at s p i \<Longrightarrow> s = take i s @ p @ drop (i + length p) s"
proof -
  assume a: "occurs_at s p i"
  have "s = take i s @ (take (length p) (drop i s) @ drop (length p) (drop i s))"
    by (simp only: append_take_drop_id)
  with a show ?thesis
    by (simp add: occurs_at_def add.commute)
qed

lemma str_includes_iff: "str_includes s p \<longleftrightarrow> (\<exists>u v. s = u @ p @ v)"
proof
  assume "str_includes s p"
  then obtain i where "find (occurs_at s p) [0 ..< Suc (length s)] = Some i"
    by (auto simp: str_includes_def indexOf_def split: option.splits)
  then have "occurs_at s p i"
    unfolding find_Some_iff by blast
  then show "\<exists>u v. s = u @ p @ v" using occurs_at_split by blast
next
  assume "\<exists>u v. s = u @ p @ v"
  then obtain u v where s: "s = u @ p @ v" by blast
  then have "occurs_at s p (length u)" by (simp add: occurs_at_def)
  moreover have "length u \<in> set [0 ..< Suc (length s)]" using s by simp
  ultimately have "find (occurs_at s p) [0 ..< Suc (length s)] \<noteq> None"
    unfolding find_None_iff by blast
  then show "str_includes s p"
    by (auto simp: str_includes_def indexOf_def split: option.splits)
qed

text \<open>
  C10. The \<open>run\<close> command does not post the report of \<open>verify\<close>. It posts the messages of
  the report without every message whose text contains \<open>/*[[\<close> or \<open>]]*/\<close>, and each
  message it posts has, as its rule, an object that holds the id of that rule and nothing
  else. When \<open>verify\<close> throws, nothing is posted.
\<close>

theorem worker_run_posts:
  "(verify E (fst (receive_config st config)) code (snd (receive_config st config)) = (Inr rep, st')
      \<longrightarrow> worker_run E st code config =
            (Inr (map (\<lambda>m. m\<lparr>rule := IdOnly (id_of (rule m))\<rparr>)
                   (filter (\<lambda>m. \<not> (\<exists>u v. message m = u @ ''/*[['' @ v) \<and>
                                 \<not> (\<exists>u v. message m = u @ '']]*/'' @ v))
                      (report_messages rep))),
             st')) \<and>
   (verify E (fst (receive_config st config)) code (snd (receive_config st config)) = (Inl err, st')
      \<longrightarrow> worker_run E st code config = (Inl err, st'))"
  by (simp add: worker_run_def str_includes_iff split: prod.splits)

theorem worker_run_posts_witness:
  "\<exists>rep st'.
     verify usercss_engine (fst (receive_config caller_state (Some [(''important'', 1)])))
       ''a { color: red !important }'' (snd (receive_config caller_state (Some [(''important'', 1)])))
       = (Inr rep, st') \<and>
     map message (report_messages rep) =
       [''Use of !important'', ''Unexpected token /*[[ at line 2'',
        ''Expected RBRACE but found ]]*/''] \<and>
     map rule (report_messages rep) =
       [Registered important, Registered important, Registered important] \<and>
     worker_run usercss_engine caller_state ''a { color: red !important }''
       (Some [(''important'', 1)]) =
       (Inr (map (\<lambda>m. m\<lparr>rule := IdOnly (id_of (rule m))\<rparr>)
              (filter (\<lambda>m. \<not> (\<exists>u v. message m = u @ ''/*[['' @ v) \<and>
                            \<not> (\<exists>u v. message m = u @ '']]*/'' @ v))
                 (report_messages rep))),
        st') \<and>
     (case fst (worker_run usercss_engine caller_state ''a { color: red !important }''
                 (Some [(''important'', 1)])) of
        Inr posted \<Rightarrow> map (\<lambda>m. (message m, rule m)) posted
      | Inl err \<Rightarrow> []) = [(''Use of !important'', IdOnly (Some ''important''))] \<and>
     (\<exists>st''. verify usercss_engine (fst (receive_config caller_state None))
              ''/* csslint ids:0 */ a { color: red !important }''
              (snd (receive_config caller_state None)) = (Inl TypeError, st'') \<and>
            worker_run usercss_engine caller_state
              ''/* csslint ids:0 */ a { color: red !important }'' None = (Inl TypeError, st''))"
proof -
  let ?st = "fst (receive_config caller_state (Some [(''important'', 1)]))"
  let ?arg = "snd (receive_config caller_state (Some [(''important'', 1)]))"
  have "case verify usercss_engine ?st ''a { color: red !important }'' ?arg of
          (Inr rep, st') \<Rightarrow>
            map message (report_messages rep) =
              [''Use of !important'', ''Unexpected token /*[[ at line 2'',
               ''Expected RBRACE but found ]]*/''] \<and>
            map rule (report_messages rep) =
              [Registered important, Registered important, Registered important]
        | (Inl err, st') \<Rightarrow> False"
    by code_simp
  then obtain rep st' where
    v: "verify usercss_engine ?st ''a { color: red !important }'' ?arg = (Inr rep, st')"
    and m: "map message (report_messages rep) =
              [''Use of !important'', ''Unexpected token /*[[ at line 2'',
               ''Expected RBRACE but found ]]*/'']"
    and r: "map rule (report_messages rep) =
              [Registered important, Registered important, Registered important]"
    by (auto split: prod.splits sum.splits)
  have p: "(case fst (worker_run usercss_engine caller_state ''a { color: red !important }''
                 (Some [(''important'', 1)])) of
        Inr posted \<Rightarrow> map (\<lambda>m. (message m, rule m)) posted
      | Inl err \<Rightarrow> []) = [(''Use of !important'', IdOnly (Some ''important''))]"
    by code_simp
  from worker_run_posts [of usercss_engine caller_state "Some [(''important'', 1)]"
      "''a { color: red !important }''" rep st'] v
  have "worker_run usercss_engine caller_state ''a { color: red !important }''
       (Some [(''important'', 1)]) =
       (Inr (map (\<lambda>m. m\<lparr>rule := IdOnly (id_of (rule m))\<rparr>)
              (filter (\<lambda>m. \<not> (\<exists>u v. message m = u @ ''/*[['' @ v) \<and>
                            \<not> (\<exists>u v. message m = u @ '']]*/'' @ v))
                 (report_messages rep))),
        st')"
    by blast
  note w = this
  have x: "\<exists>st''. verify usercss_engine (fst (receive_config caller_state None))
              ''/* csslint ids:0 */ a { color: red !important }''
              (snd (receive_config caller_state None)) = (Inl TypeError, st'') \<and>
            worker_run usercss_engine caller_state
              ''/* csslint ids:0 */ a { color: red !important }'' None = (Inl TypeError, st'')"
  proof -
    let ?v = "verify usercss_engine (fst (receive_config caller_state None))
              ''/* csslint ids:0 */ a { color: red !important }''
              (snd (receive_config caller_state None))"
    have "exception_of ?v = Some TypeError" by code_simp
    then have e: "?v = (Inl TypeError, snd ?v)"
      by (cases ?v) (auto simp: exception_of_def split: sum.splits)
    from worker_run_posts [of usercss_engine caller_state None
        "''/* csslint ids:0 */ a { color: red !important }''" _ "snd ?v" TypeError] e
    show ?thesis by blast
  qed
  show ?thesis
    by (rule exI [of _ rep], rule exI [of _ st'], intro conjI) (fact v m r w p x)+
qed

section \<open>What the result of \<open>verify\<close> depends on\<close>

text \<open>
  The Reporter reads the ruleset through its reference only, so two runs whose ruleset
  objects hold the same entries after \<open>errors\<close> is forced go the same way, wherever the
  objects live and whatever the cursor was.
\<close>

lemma result_of_verify:
  "result_of (verify E st css arg) = reporter_result (verify_reporter E st css arg)"
  by (simp add: result_of_def reporter_result_def verify_def split: prod.splits sum.splits)

lemma obj_put_idem: "obj_put (obj_put obj k v) k v = obj_put obj k v"
  by (induction obj) auto

lemma obj_set_idem: "obj_set (obj_set obj k v) k v = obj_set obj k v"
proof (cases "k = ''__proto__'' \<and> obj_get obj k = None")
  case True
  then show ?thesis by (auto simp: obj_set_def obj_put_idem)
next
  case False
  then have "obj_set obj k v = obj_put obj k v" by (auto simp: obj_set_def)
  then show ?thesis by (simp add: obj_set_def obj_put_idem)
qed

lemma ruleset_perform: "ruleset (perform h r a) = ruleset r"
  by (cases a)
     (simp_all add: Reporter_error_def Reporter_report_def Reporter_info_def rollupError_def
        rollupWarn_def stat_def)

lemma perform_ruleset:
  "h1 (ruleset r) = h2 rs2 \<Longrightarrow>
     perform h2 (r\<lparr>ruleset := rs2\<rparr>) a = (perform h1 r a)\<lparr>ruleset := rs2\<rparr>"
  by (cases a)
     (simp_all add: Reporter_error_def Reporter_report_def Reporter_info_def rollupError_def
        rollupWarn_def stat_def allowed_def ignored_def)

lemma foldl_perform_ruleset:
  "h1 (ruleset r) = h2 rs2 \<Longrightarrow>
     foldl (perform h2) (r\<lparr>ruleset := rs2\<rparr>) calls = (foldl (perform h1) r calls)\<lparr>ruleset := rs2\<rparr>"
proof (induction calls arbitrary: r)
  case Nil
  then show ?case by simp
next
  case (Cons a calls)
  from Cons.prems have "h1 (ruleset (perform h1 r a)) = h2 rs2"
    by (simp add: ruleset_perform)
  from Cons.IH [OF this] show ?case
    by (simp add: perform_ruleset [of h1 r h2 rs2, OF Cons.prems])
qed

lemma ruleset_foldl_perform: "ruleset (foldl (perform h) r calls) = ruleset r"
  by (induction calls arbitrary: r) (simp_all add: ruleset_perform)

lemma after_parse_ruleset:
  assumes "h1 (ruleset r) = h2 rs2"
  shows "after_parse h2 (r\<lparr>ruleset := rs2\<rparr>) out = (after_parse h1 r out)\<lparr>ruleset := rs2\<rparr>"
  by (simp add: after_parse_def Let_def foldl_perform_ruleset [of h1 r h2 rs2, OF assms] Reporter_error_def
        split: option.splits)

lemma ruleset_after_parse: "ruleset (after_parse h r out) = ruleset r"
  by (simp add: after_parse_def Let_def ruleset_foldl_perform Reporter_error_def
        split: option.splits)

lemma rules_get_registry:
  assumes "registry st1 = registry st2"
  shows "rules_get st1 = rules_get st2"
proof
  fix k
  from assms have "rules st1 = rules st2" "rules_props st1 = rules_props st2"
    "rules_proto st1 = rules_proto st2"
    by (simp_all add: registry_def)
  then show "rules_get st1 k = rules_get st2 k" unfolding rules_get_def by (simp only:)
qed

lemma rules_get_objs: "rules_get (st\<lparr>objs := h\<rparr>) = rules_get st"
  by (rule rules_get_registry) (simp add: registry_def)

lemma rules_get_lastIndex: "rules_get (st\<lparr>lastIndex := i\<rparr>) = rules_get st"
  by (rule rules_get_registry) (simp add: registry_def)

lemma rules_get_alloc: "rules_get (fst (alloc st obj)) = rules_get st"
  by (rule rules_get_registry) (simp add: registry_def alloc_def)

lemma resolve_rules_get:
  "rules_get st1 = rules_get st2 \<Longrightarrow> resolve st1 obj ks = resolve st2 obj ks"
  by (induction ks) (simp_all split: member.splits)

lemma run_rules_result:
  assumes reg: "rules_get st1 = rules_get st2"
    and obj: "obj_set (objs st1 rs1) ''errors'' 2 = obj_set (objs st2 rs2) ''errors'' 2"
  shows "reporter_result (run_rules E st1 css rs1 al ig) =
         reporter_result (run_rules E st2 css rs2 al ig)"
proof -
  let ?obj = "obj_set (objs st1 rs1) ''errors'' 2"
  let ?f1 = "force_errors st1 rs1" and ?f2 = "force_errors st2 rs2"
  have o1: "objs ?f1 rs1 = ?obj" and o2: "objs ?f2 rs2 = ?obj"
    using obj by (simp_all add: force_errors_def)
  have "rules_get ?f1 = rules_get ?f2"
    using reg by (simp add: force_errors_def rules_get_objs)
  then have en: "resolve ?f1 ?obj (obj_keys ?obj) = resolve ?f2 ?obj (obj_keys ?obj)"
    by (rule resolve_rules_get)
  let ?inits = "resolve ?f1 ?obj (obj_keys ?obj)"
  have r1: "reporter_of E st1 css rs1 al ig =
      (case E css (fst ?inits) of Inl err \<Rightarrow> Inl err
       | Inr out \<Rightarrow> if snd ?inits then Inl TypeError
                    else Inr (after_parse (objs ?f1) (Reporter [] rs1 al ig) out))"
    by (simp add: reporter_of_def Let_def o1 cong: sum.case_cong if_cong)
  have r2: "reporter_of E st2 css rs2 al ig =
      (case E css (fst ?inits) of Inl err \<Rightarrow> Inl err
       | Inr out \<Rightarrow> if snd ?inits then Inl TypeError
                    else Inr (after_parse (objs ?f2) (Reporter [] rs2 al ig) out))"
    by (simp add: reporter_of_def Let_def o2 en cong: sum.case_cong if_cong)
  show ?thesis
  proof (cases "E css (fst ?inits)")
    case (Inl err)
    with r1 r2 show ?thesis by (simp add: reporter_result_def run_rules_def)
  next
    case (Inr out)
    show ?thesis
    proof (cases "snd ?inits")
      case True
      with Inr r1 r2 show ?thesis by (simp add: reporter_result_def run_rules_def)
    next
      case False
      let ?a1 = "after_parse (objs ?f1) (Reporter [] rs1 al ig) out"
      have "objs ?f1 (ruleset (Reporter [] rs1 al ig)) = objs ?f2 rs2"
        by (simp add: Reporter_def o1 o2)
      from after_parse_ruleset [of "objs ?f1" "Reporter [] rs1 al ig" "objs ?f2" rs2 out, OF this]
      have a2: "after_parse (objs ?f2) (Reporter [] rs2 al ig) out = ?a1\<lparr>ruleset := rs2\<rparr>"
        by (simp add: Reporter_def)
      have "ruleset ?a1 = rs1"
        by (simp add: ruleset_after_parse Reporter_def)
      with Inr False r1 r2 a2 o1 o2 show ?thesis
        by (simp add: reporter_result_def run_rules_def report_value_def assemble_def)
    qed
  qed
qed

lemma verify_with_result:
  assumes reg: "rules_get st1 = rules_get st2"
    and obj: "objs st1 r1 = objs st2 r2"
  shows "reporter_result (verify_with E st1 css r1) =
         reporter_result (verify_with E st2 css r2)"
proof (cases "0 \<le> prescan css")
  case False
  then have e: "verify_with E st css r =
      run_rules E (st\<lparr>lastIndex := prescan css\<rparr>) css r Map.empty []" for st r
    by (simp add: verify_with_def Let_def)
  show ?thesis
    unfolding e by (rule run_rules_result) (use reg obj in \<open>simp_all add: rules_get_lastIndex\<close>)
next
  case True
  define S where "S = (\<lambda>st obj (s::overrides).
     (fst (alloc (st\<lparr>lastIndex := prescan css\<rparr>) obj))
       \<lparr>objs := (objs (fst (alloc (st\<lparr>lastIndex := prescan css\<rparr>) obj)))
                  (next_ref st := o_ruleset s),
        lastIndex := int (cursor s)\<rparr>)"
  have v: "verify_with E st css r =
      (case applyEmbeddedOverrides css (nat (prescan css)) (obj_clone (objs st r)) Map.empty [] of
         (Some err, s) \<Rightarrow> (Inl err, S st (obj_clone (objs st r)) s)
       | (None, s) \<Rightarrow>
           run_rules E (S st (obj_clone (objs st r)) s) css (next_ref st) (o_allow s)
             (o_ignore s))"
    for st r
    using True
    by (simp add: verify_with_def Let_def alloc_def S_def split: prod.splits option.splits)
  have S_reg: "rules_get (S st obj s) = rules_get st" for st obj s
    by (rule rules_get_registry) (simp add: S_def alloc_def registry_def)
  have S_obj: "objs (S st obj s) (next_ref st) = o_ruleset s" for st obj s
    by (simp add: S_def alloc_def)
  let ?x = "applyEmbeddedOverrides css (nat (prescan css)) (obj_clone (objs st2 r2)) Map.empty []"
  obtain res s where x: "?x = (res, s)" by (cases ?x)
  show ?thesis
  proof (cases res)
    case None
    with x obj have
      "verify_with E st1 css r1 =
         run_rules E (S st1 (obj_clone (objs st1 r1)) s) css (next_ref st1) (o_allow s)
           (o_ignore s)"
      "verify_with E st2 css r2 =
         run_rules E (S st2 (obj_clone (objs st2 r2)) s) css (next_ref st2) (o_allow s)
           (o_ignore s)"
      by (simp_all add: v)
    then show ?thesis
      by (simp only:) (rule run_rules_result, simp_all add: S_reg S_obj reg)
  next
    case (Some err)
    with x obj show ?thesis
      by (simp add: v reporter_result_def)
  qed
qed

lemma registry_after_verify_with:
  "registry (snd (verify_with E st css r)) = registry st"
  by (simp add: verify_with_def alloc_def run_rules_def force_errors_def registry_def
        Let_def split: option.splits prod.splits)

lemma registry_after_verify_reporter:
  "registry (snd (verify_reporter E st css arg)) = registry st"
proof (cases arg)
  case None
  show ?thesis
  proof (cases "getRuleset st")
    case (Inl err)
    with None show ?thesis by (simp add: verify_reporter_def)
  next
    case (Inr p)
    then have "registry (fst p) = registry st"
      by (auto simp: getRuleset_def alloc_def registry_def split: if_splits)
    with None Inr show ?thesis
      by (auto simp: verify_reporter_def registry_after_verify_with split: prod.splits)
  qed
next
  case (Some r)
  then show ?thesis by (simp add: verify_reporter_def registry_after_verify_with)
qed

lemma verify_reporter_Some: "verify_reporter E st css (Some r) = verify_with E st css r"
  by (simp add: verify_reporter_def)

lemma result_of_verify_same_value:
  assumes "rules_get st1 = rules_get st2" and "objs st1 r1 = objs st2 r2"
  shows "result_of (verify E st1 css (Some r1)) = result_of (verify E st2 css (Some r2))"
  unfolding result_of_verify verify_reporter_Some using assms by (rule verify_with_result)

lemma result_of_verify_default:
  assumes reg: "registry st1 = registry st2"
  shows "result_of (verify E st1 css None) = result_of (verify E st2 css None)"
proof (cases "rules_proto st1 = None \<and> holes (rules st1) = 0")
  case True
  let ?obj = "foldl (\<lambda>obj r. obj_set obj (rule_id r) 1) [] (present (rules st1))"
  from reg have eq: "rules st2 = rules st1" "rules_proto st2 = rules_proto st1"
    by (simp_all add: registry_def)
  have v: "verify_reporter E st1 css None = verify_with E (fst (alloc st1 ?obj)) css (next_ref st1)"
    "verify_reporter E st2 css None = verify_with E (fst (alloc st2 ?obj)) css (next_ref st2)"
    using True by (simp_all add: verify_reporter_def getRuleset_def alloc_def eq)
  show ?thesis
    unfolding result_of_verify v
    by (rule verify_with_result)
       (simp_all add: rules_get_alloc rules_get_registry [OF reg], simp add: alloc_def)
next
  case False
  from reg have eq: "rules st2 = rules st1" "rules_proto st2 = rules_proto st1"
    by (simp_all add: registry_def)
  from False have "verify_reporter E st1 css None = (Inl TypeError, st1)"
    "verify_reporter E st2 css None = (Inl TypeError, st2)"
    by (auto simp: verify_reporter_def getRuleset_def eq)
  then show ?thesis
    by (simp add: result_of_verify reporter_result_def)
qed

lemma result_of_verify_again:
  assumes "r < next_ref st"
  shows "result_of (verify E (snd (verify E st css (Some r))) css (Some r)) =
         result_of (verify E st css (Some r))"
proof (cases "0 \<le> prescan css")
  case True
  with objs_after_verify [OF assms, of E css]
  have "objs (snd (verify E st css (Some r))) r = objs st r" by simp
  moreover have "rules_get (snd (verify E st css (Some r))) = rules_get st"
    by (rule rules_get_registry) (simp add: snd_verify registry_after_verify_reporter)
  ultimately show ?thesis by (rule result_of_verify_same_value [rotated])
next
  case False
  let ?st' = "snd (verify E st css (Some r))"
  from False have e: "verify_reporter E s css (Some r) =
      run_rules E (s\<lparr>lastIndex := prescan css\<rparr>) css r Map.empty []" for s
    by (simp add: verify_reporter_def verify_with_def Let_def)
  from False objs_after_verify [OF assms, of E css]
  have o: "objs ?st' r = obj_set (objs st r) ''errors'' 2" by simp
  have g: "rules_get ?st' = rules_get st"
    by (rule rules_get_registry) (simp add: snd_verify registry_after_verify_reporter)
  then have g': "rules_get (?st'\<lparr>lastIndex := prescan css\<rparr>) =
      rules_get (st\<lparr>lastIndex := prescan css\<rparr>)"
    by (simp add: rules_get_lastIndex)
  show ?thesis
    unfolding result_of_verify e
    by (rule run_rules_result) (simp_all add: o g' obj_set_idem)
qed

text \<open>
  C9. \<open>verify\<close> is deterministic across runs. The result, as a value (the exception, or
  the messages in order, the stats, the ruleset, the allow map and the ignore ranges),
  is a function of the text, of the entries of the ruleset and of the registry (of what
  \<open>rules[id]\<close> yields, when a ruleset is passed): not of the cursor
  \<open>RX_EMBEDDED.lastIndex\<close>, nor of anything else that an earlier run has left.
  A second call with the same text and the same ruleset object, or again without a
  ruleset, has the result of the first. The parser and the listeners are a function of
  the text and the rules initialised; every rule of the source keeps its counters in
  variables of \<open>init\<close>.
\<close>

theorem verify_deterministic:
  "(rules_get st1 = rules_get st2 \<and> objs st1 r1 = objs st2 r2 \<longrightarrow>
      result_of (verify E st1 text (Some r1)) = result_of (verify E st2 text (Some r2))) \<and>
   (registry st1 = registry st2 \<longrightarrow>
      result_of (verify E st1 text None) = result_of (verify E st2 text None)) \<and>
   (r < next_ref st \<longrightarrow>
      result_of (verify E (snd (verify E st text (Some r))) text (Some r)) =
      result_of (verify E st text (Some r))) \<and>
   result_of (verify E (snd (verify E st text None)) text None) =
     result_of (verify E st text None)"
proof -
  have "result_of (verify E (snd (verify E st text None)) text None) =
     result_of (verify E st text None)"
    by (rule result_of_verify_default)
       (simp add: snd_verify registry_after_verify_reporter)
  then show ?thesis
    using result_of_verify_same_value [of st1 st2 r1 r2 E "text"]
      result_of_verify_default [of st1 st2 E "text"]
      result_of_verify_again [of r st E "text"]
    by blast
qed

theorem verify_deterministic_witness:
  "0 < next_ref caller_state \<and>
   result_of (verify sample_engine
       (snd (verify sample_engine caller_state ''a { color: red !important }'' (Some 0)))
       ''a { color: red !important }'' (Some 0)) =
     result_of (verify sample_engine caller_state ''a { color: red !important }'' (Some 0)) \<and>
   lastIndex (caller_state\<lparr>lastIndex := 17\<rparr>) = 17 \<and> lastIndex caller_state = 0 \<and>
   result_of (verify sample_engine (caller_state\<lparr>lastIndex := 17\<rparr>)
       ''/* csslint ids:0 */ a {}'' (Some 0)) =
     result_of (verify sample_engine caller_state ''/* csslint ids:0 */ a {}'' (Some 0)) \<and>
   result_of (verify sample_engine (caller_state\<lparr>lastIndex := 17\<rparr>)
       ''a { color: red !important }'' None) =
     result_of (verify sample_engine caller_state ''a { color: red !important }'' None)"
proof -
  have n: "0 < next_ref caller_state" by code_simp
  have l: "lastIndex caller_state = 0" by code_simp
  have l': "lastIndex (caller_state\<lparr>lastIndex := 17\<rparr>) = 17" by simp
  have p: "rules_get (caller_state\<lparr>lastIndex := 17\<rparr>) = rules_get caller_state \<and>
           objs (caller_state\<lparr>lastIndex := 17\<rparr>) 0 = objs caller_state 0"
    by (simp add: rules_get_lastIndex)
  have q: "registry (caller_state\<lparr>lastIndex := 17\<rparr>) = registry caller_state"
    by (simp add: registry_def)
  from verify_deterministic [of _ _ _ _ sample_engine "''a { color: red !important }''" 0
      caller_state] n
  have a: "result_of (verify sample_engine
       (snd (verify sample_engine caller_state ''a { color: red !important }'' (Some 0)))
       ''a { color: red !important }'' (Some 0)) =
     result_of (verify sample_engine caller_state ''a { color: red !important }'' (Some 0))"
    by blast
  from verify_deterministic [of "caller_state\<lparr>lastIndex := 17\<rparr>" caller_state 0 0
      sample_engine "''/* csslint ids:0 */ a {}''"] p
  have b: "result_of (verify sample_engine (caller_state\<lparr>lastIndex := 17\<rparr>)
       ''/* csslint ids:0 */ a {}'' (Some 0)) =
     result_of (verify sample_engine caller_state ''/* csslint ids:0 */ a {}'' (Some 0))"
    by blast
  from verify_deterministic [of "caller_state\<lparr>lastIndex := 17\<rparr>" caller_state 0 0
      sample_engine "''a { color: red !important }''"] q
  have c: "result_of (verify sample_engine (caller_state\<lparr>lastIndex := 17\<rparr>)
       ''a { color: red !important }'' None) =
     result_of (verify sample_engine caller_state ''a { color: red !important }'' None)"
    by blast
  show ?thesis
    by (intro conjI) (fact n a l' l b c)+
qed

end
